theory Spec2Isabelle
  imports Complex_Main
begin

section \<open>Data model\<close>

text \<open>
  The notebook \<^verbatim>\<open>2-PCA.ipynb\<close> works on pandas data frames. A frame is modelled as an
  ordered list of column labels, an optional name of the index, and an ordered list of
  rows; every row carries its row label (the entry of the index) and its cells in column
  order. A cell is an integer (a cell of an \<^verbatim>\<open>int64\<close> column, from \<open>-2\<^sup>6\<^sup>3\<close> to
  \<open>2\<^sup>6\<^sup>3 - 1\<close>), a floating-point number (a cell of a \<^verbatim>\<open>float64\<close> column: a real
  that the format represents), a text, or the missing value \<open>NaN\<close>. The sums the
  notebook itself computes wrap around on integers and are rounded on floating-point
  numbers, as written out below. The logarithm and the powers of the Box-Cox
  transformation and the statistics of the scaler, which external routines compute, are
  on exact reals.

  Column labels are names (the header of the CSV file) or integers (the default labels
  \<open>0, 1, ...\<close> that \<^verbatim>\<open>pd.DataFrame(array)\<close> gives to the columns of an array).
\<close>

datatype cell = Int64 int | Num real | Txt string | NaN

text \<open>The number in a cell, and the numbers in a list of cells.\<close>

fun number_of :: "cell \<Rightarrow> real option" where
  "number_of (Int64 i) = Some (of_int i)"
| "number_of (Num x) = Some x"
| "number_of c = None"

fun is_number :: "cell \<Rightarrow> bool" where
  "is_number (Int64 i) \<longleftrightarrow> True"
| "is_number (Num x) \<longleftrightarrow> True"
| "is_number c \<longleftrightarrow> False"

definition values_of :: "cell list \<Rightarrow> real list" where
  "values_of cs = concat (map (\<lambda>c. case number_of c of Some x \<Rightarrow> [x] | None \<Rightarrow> []) cs)"

datatype label = Name string | Pos nat

datatype error = IndexError | KeyError | TypeError | ValueError | NumericError

record frame =
  index_name :: "label option"
  columns :: "label list"
  rows :: "(cell \<times> cell list) list"

definition index :: "frame \<Rightarrow> cell list" where
  "index f = map fst (rows f)"

definition column :: "frame \<Rightarrow> nat \<Rightarrow> cell list" where
  "column f j = map (\<lambda>r. snd r ! j) (rows f)"

text \<open>
  \<^verbatim>\<open>pd.read_csv\<close> gives a frame whose column labels are the names of the header, each
  name once (pandas renames a repeated header), and whose rows all have one cell per column.
\<close>

definition csv_table :: "frame \<Rightarrow> bool" where
  "csv_table f \<longleftrightarrow>
     distinct (columns f) \<and>
     list_all (\<lambda>c. case c of Name _ \<Rightarrow> True | Pos _ \<Rightarrow> False) (columns f) \<and>
     list_all (\<lambda>r. length (snd r) = length (columns f)) (rows f)"

text \<open>The position of the first occurrence of a label, and a list without one position.\<close>

definition pos_of :: "'a \<Rightarrow> 'a list \<Rightarrow> nat" where
  "pos_of k xs = length (takeWhile (\<lambda>x. x \<noteq> k) xs)"

definition del_at :: "nat \<Rightarrow> 'a list \<Rightarrow> 'a list" where
  "del_at j xs = take j xs @ drop (Suc j) xs"

section \<open>Cleaner\<close>

text \<open>
  Modelled from the spec: the cell that drops the rows with missing values (notebook
  cell 11, \<^verbatim>\<open># Run the code to drop all null and NaN values\<close>) is an exercise left
  blank in the notebook. The spec (4.1) says: the Cleaner removes any row containing a
  missing value in any column, with no imputation. Row labels are kept, as they are.
\<close>

definition dropna :: "frame \<Rightarrow> frame" where
  "dropna f = f\<lparr>rows := filter (\<lambda>r. NaN \<notin> set (snd r)) (rows f)\<rparr>"

section \<open>Column split (notebook cells 16 to 23)\<close>

text \<open>
  \<^verbatim>\<open>df.iloc[:, js]\<close> with a list of positions: the columns at these positions, in the
  order of the list; a position past the last column raises IndexError.
\<close>

definition iloc_cols :: "nat list \<Rightarrow> frame \<Rightarrow> error + frame" where
  "iloc_cols js f =
     (if list_ex (\<lambda>j. length (columns f) \<le> j) js then Inl IndexError
      else Inr (f\<lparr>columns := map (nth (columns f)) js,
                  rows := map (\<lambda>r. (fst r, map (nth (snd r)) js)) (rows f)\<rparr>))"

text \<open>
  \<^verbatim>\<open>df.iloc[:, :-k]\<close> for \<open>k > 0\<close>: all columns but the last \<open>k\<close>; a slice never
  raises, and a frame with fewer than \<open>k\<close> columns keeps none.
\<close>

definition iloc_cols_but_last :: "nat \<Rightarrow> frame \<Rightarrow> frame" where
  "iloc_cols_but_last k f =
     f\<lparr>columns := take (length (columns f) - k) (columns f),
       rows := map (\<lambda>r. (fst r, take (length (snd r) - k) (snd r))) (rows f)\<rparr>"

text \<open>
  \<^verbatim>\<open>df.drop(labels, axis=1)\<close>: the columns whose label is not listed; a listed label
  that is no column raises KeyError.
\<close>

definition drop_cols :: "label list \<Rightarrow> frame \<Rightarrow> error + frame" where
  "drop_cols ls f =
     (if \<not> set ls \<subseteq> set (columns f) then Inl KeyError
      else let keep = filter (\<lambda>j. columns f ! j \<notin> set ls) [0..<length (columns f)]
           in Inr (f\<lparr>columns := map (nth (columns f)) keep,
                       rows := map (\<lambda>r. (fst r, map (nth (snd r)) keep)) (rows f)\<rparr>))"

text \<open>
  \<^verbatim>\<open>df.set_index(k, inplace=True)\<close>: the column labelled \<open>k\<close> becomes the index and
  leaves the columns; a label that is no column raises KeyError. (Column labels are
  distinct in every frame the notebook builds; the first column so labelled is taken.)
\<close>

definition set_index :: "label \<Rightarrow> frame \<Rightarrow> error + frame" where
  "set_index k f =
     (if k \<notin> set (columns f) then Inl KeyError
      else let j = pos_of k (columns f)
           in Inr \<lparr>index_name = Some k,
                   columns = del_at j (columns f),
                   rows = map (\<lambda>r. (snd r ! j, del_at j (snd r))) (rows f)\<rparr>)"

definition NDB_No :: label where "NDB_No = Name ''NDB_No''"
definition FoodGroup :: label where "FoodGroup = Name ''FoodGroup''"
definition Shrt_Desc :: label where "Shrt_Desc = Name ''Shrt_Desc''"

text \<open>
  Cell 16:
  \<^verbatim>\<open>desc_df = df.iloc[:, [0, 1, 2]+[i for i in range(50,54)]]\<close>,
  \<^verbatim>\<open>desc_df.set_index('NDB_No', inplace=True)\<close>.
\<close>

definition make_desc_df :: "frame \<Rightarrow> error + frame" where
  "make_desc_df df =
     (case iloc_cols ([0, 1, 2] @ [50..<54]) df of
        Inl e \<Rightarrow> Inl e
      | Inr d \<Rightarrow> set_index NDB_No d)"

text \<open>
  Cells 18, 20 and 22 (the last with the solution the notebook gives in cell 23):
  \<^verbatim>\<open>nutr_df = df.iloc[:, :-5]\<close>,
  \<^verbatim>\<open>nutr_df = nutr_df.drop(['FoodGroup', 'Shrt_Desc'], axis=1)\<close>,
  \<^verbatim>\<open>nutr_df.set_index('NDB_No', inplace=True)\<close>.
\<close>

definition make_nutr_df :: "frame \<Rightarrow> error + frame" where
  "make_nutr_df df =
     (case drop_cols [FoodGroup, Shrt_Desc] (iloc_cols_but_last 5 df) of
        Inl e \<Rightarrow> Inl e
      | Inr n \<Rightarrow> set_index NDB_No n)"

text \<open>The cells run in order; the first exception stops the notebook.\<close>

definition split_columns :: "frame \<Rightarrow> error + frame \<times> frame" where
  "split_columns df =
     (case make_desc_df df of
        Inl e \<Rightarrow> Inl e
      | Inr d \<Rightarrow> (case make_nutr_df df of Inl e \<Rightarrow> Inl e | Inr n \<Rightarrow> Inr (d, n)))"

section \<open>Normalizer (notebook cells 29 to 35)\<close>

text \<open>A list of results is a result: the first error, or all the values.\<close>

fun collect :: "('e + 'a) list \<Rightarrow> 'e + 'a list" where
  "collect [] = Inr []"
| "collect (x # xs) =
     (case x of
        Inl e \<Rightarrow> Inl e
      | Inr v \<Rightarrow> (case collect xs of Inl e \<Rightarrow> Inl e | Inr vs \<Rightarrow> Inr (v # vs)))"

text \<open>
  Addition on \<^verbatim>\<open>int64\<close> wraps around silently: the sum is taken modulo \<open>2\<^sup>6\<^sup>4\<close>
  into the range from \<open>-2\<^sup>6\<^sup>3\<close> to \<open>2\<^sup>6\<^sup>3 - 1\<close>.
\<close>

definition wrap64 :: "int \<Rightarrow> int" where
  "wrap64 i = (i + 2 ^ 63) mod 2 ^ 64 - 2 ^ 63"

text \<open>
  Addition on \<^verbatim>\<open>float64\<close> rounds the exact sum to the nearest number of the
  format, a tie to the one with an even significand: a number \<open>x \<noteq> 0\<close> with
  \<open>2\<^sup>e \<le> \<bar>x\<bar> < 2\<^sup>e\<^sup>+\<^sup>1\<close> is rounded to a multiple of \<open>2\<^sup>e\<^sup>-\<^sup>5\<^sup>2\<close>, and of \<open>2\<^sup>-\<^sup>1\<^sup>0\<^sup>7\<^sup>4\<close>
  in the subnormal range. (The sum of a number of the format and 1 does not overflow.)
\<close>

definition round_half_even :: "real \<Rightarrow> int" where
  "round_half_even y =
     (let f = \<lfloor>y\<rfloor>; d = y - of_int f
      in if d < 1 / 2 then f else if 1 / 2 < d then f + 1 else if even f then f else f + 1)"

definition round64 :: "real \<Rightarrow> real" where
  "round64 x =
     (if x = 0 then 0
      else let q = max (\<lfloor>log 2 \<bar>x\<bar>\<rfloor> - 52) (- 1074)
           in of_int (round_half_even (x / 2 powr of_int q)) * 2 powr of_int q)"

text \<open>
  Cell 29, \<^verbatim>\<open>nutr_df = nutr_df + 1\<close>: the integer is added to every cell, in the
  arithmetic of the cell's column; a missing value stays missing, and adding a number to
  a text raises TypeError. (The notebook adds 1, which both formats represent; the model
  is for such an integer.)
\<close>

fun shift_cell :: "int \<Rightarrow> cell \<Rightarrow> cell" where
  "shift_cell k (Int64 i) = Int64 (wrap64 (i + k))"
| "shift_cell k (Num x) = Num (round64 (x + of_int k))"
| "shift_cell k c = c"

fun add_cell :: "int \<Rightarrow> cell \<Rightarrow> error + cell" where
  "add_cell k (Txt s) = Inl TypeError"
| "add_cell k c = Inr (shift_cell k c)"

definition add_scalar :: "int \<Rightarrow> frame \<Rightarrow> error + frame" where
  "add_scalar k f =
     (case collect (map (\<lambda>r. case collect (map (add_cell k) (snd r)) of
                                 Inl e \<Rightarrow> Inl e
                               | Inr cs \<Rightarrow> Inr (fst r, cs)) (rows f)) of
        Inl e \<Rightarrow> Inl e
      | Inr rs \<Rightarrow> Inr (f\<lparr>rows := rs\<rparr>))"

text \<open>
  The Box-Cox transformation as the notebook describes it (cell 30): the value \<open>y\<close> goes
  to \<open>(y\<^sup>\<lambda> - 1) / \<lambda>\<close> for \<open>\<lambda> \<noteq> 0\<close> and to \<open>log y\<close> for \<open>\<lambda> = 0\<close>.
\<close>

definition boxcox_value :: "real \<Rightarrow> cell \<Rightarrow> cell" where
  "boxcox_value lam c =
     (case number_of c of
        Some y \<Rightarrow> Num (if lam = 0 then ln y else (y powr lam - 1) / lam)
      | None \<Rightarrow> c)"

text \<open>
  Modelled from the spec: \<^verbatim>\<open>scipy.stats.boxcox\<close> is a routine of an external library
  and not part of the sources. Its estimate of the exponent for a column is the parameter
  \<open>lam\<close>. The spec (4.2) says: it finds a per-column exponent, applies the transform above,
  and fails with a NumericError if any input to this step is non-positive (the notebook,
  cell 28: it requires a strictly positive input). Comparing a text with a number raises
  TypeError; a missing value compares false.
\<close>

definition boxcox :: "(cell list \<Rightarrow> real) \<Rightarrow> cell list \<Rightarrow> error + cell list" where
  "boxcox lam xs =
     (if list_ex (\<lambda>c. case c of Txt _ \<Rightarrow> True | _ \<Rightarrow> False) xs then Inl TypeError
      else if list_ex (\<lambda>c. case number_of c of Some x \<Rightarrow> x \<le> 0 | None \<Rightarrow> False) xs
      then Inl NumericError
      else Inr (map (boxcox_value (lam xs)) xs))"

text \<open>\<^verbatim>\<open>nutr_df.loc[:, col]\<close>: the cells of the column labelled \<open>col\<close>.\<close>

definition loc_col :: "frame \<Rightarrow> label \<Rightarrow> cell list" where
  "loc_col f col = column f (pos_of col (columns f))"

text \<open>
  \<^verbatim>\<open>f[k] = vs\<close>: a column labelled \<open>k\<close> is overwritten where it stands, a new label
  is appended as the last column; as many values as rows, or ValueError.
\<close>

definition set_column :: "label \<Rightarrow> cell list \<Rightarrow> frame \<Rightarrow> error + frame" where
  "set_column k vs f =
     (if length vs \<noteq> length (rows f) then Inl ValueError
      else if k \<in> set (columns f)
      then Inr (f\<lparr>rows := map (\<lambda>(r, v). (fst r, (snd r)[pos_of k (columns f) := v]))
                              (zip (rows f) vs)\<rparr>)
      else Inr (f\<lparr>columns := columns f @ [k],
                  rows := map (\<lambda>(r, v). (fst r, snd r @ [v])) (zip (rows f) vs)\<rparr>))"

text \<open>\<^verbatim>\<open>'{}_TF'.format(col)\<close>; an integer label is written in decimal.\<close>

fun decimal :: "nat \<Rightarrow> string" where
  "decimal n =
     (if n < 10 then [''0123456789'' ! n]
      else decimal (n div 10) @ [''0123456789'' ! (n mod 10)])"

fun format_TF :: "label \<Rightarrow> label" where
  "format_TF (Name s) = Name (s @ ''_TF'')"
| "format_TF (Pos n) = Name (decimal n @ ''_TF'')"

text \<open>
  Cell 31:
  \<^verbatim>\<open>nutr_df_TF = pd.DataFrame(index=nutr_df.index)\<close>,
  \<^verbatim>\<open>for col in nutr_df.columns.values:\<close>
  \<^verbatim>\<open>    nutr_df_TF['{}_TF'.format(col)] = boxcox(nutr_df.loc[:, col])[0]\<close>.
  An exception in the loop is not caught.
\<close>

fun boxcox_loop :: "(cell list \<Rightarrow> real) \<Rightarrow> frame \<Rightarrow> label list \<Rightarrow> frame \<Rightarrow> error + frame" where
  "boxcox_loop lam nutr [] tf = Inr tf"
| "boxcox_loop lam nutr (col # cols) tf =
     (case boxcox lam (loc_col nutr col) of
        Inl e \<Rightarrow> Inl e
      | Inr ys \<Rightarrow>
          (case set_column (format_TF col) ys tf of
             Inl e \<Rightarrow> Inl e
           | Inr tf' \<Rightarrow> boxcox_loop lam nutr cols tf'))"

definition power_transform :: "(cell list \<Rightarrow> real) \<Rightarrow> frame \<Rightarrow> error + frame" where
  "power_transform lam nutr =
     boxcox_loop lam nutr (columns nutr)
       \<lparr>index_name = index_name nutr, columns = [], rows = map (\<lambda>r. (fst r, [])) (rows nutr)\<rparr>"

text \<open>
  Modelled from the spec: cell 35, \<^verbatim>\<open>StandardScaler().fit_transform(nutr_df_TF)\<close>,
  calls a routine of an external library that is not part of the sources. It takes the
  values of the frame as an array of \<open>n\<close> columns and gives an array of the same shape;
  the spec (4.2) says it works on each column by itself, subtracting the column mean and
  dividing by the column standard deviation. What it does to a value of a column, given
  the column, is the parameter \<open>sc\<close>.
\<close>

definition array_column :: "cell list list \<Rightarrow> nat \<Rightarrow> cell list" where
  "array_column m j = map (\<lambda>r. r ! j) m"

definition fit_transform_scaler ::
  "(cell list \<Rightarrow> cell \<Rightarrow> cell) \<Rightarrow> nat \<Rightarrow> cell list list \<Rightarrow> cell list list" where
  "fit_transform_scaler sc n m = map (\<lambda>r. map (\<lambda>j. sc (array_column m j) (r ! j)) [0..<n]) m"

section \<open>Reducer and Grouper (notebook cells 41 to 67)\<close>

text \<open>
  \<^verbatim>\<open>pd.DataFrame(a, index=d.index)\<close>: the rows of the array \<open>a\<close> (of \<open>w\<close> columns,
  labelled \<open>0, ..., w - 1\<close>) under the row labels of \<open>d\<close>; as many rows as labels, or
  ValueError.
\<close>

definition data_frame :: "nat \<Rightarrow> cell list list \<Rightarrow> frame \<Rightarrow> error + frame" where
  "data_frame w a d =
     (if length a \<noteq> length (rows d) then Inl ValueError
      else Inr \<lparr>index_name = index_name d, columns = map Pos [0..<w], rows = zip (index d) a\<rparr>)"

text \<open>
  \<^verbatim>\<open>l.join(r)\<close>: a left join on the row labels. Every row of \<open>l\<close>, in order, is
  extended by the cells of each row of \<open>r\<close> under the same label, or by missing values
  when \<open>r\<close> has no such row; a column label in both frames raises ValueError.
\<close>

definition join :: "frame \<Rightarrow> frame \<Rightarrow> error + frame" where
  "join l r =
     (if list_ex (\<lambda>c. c \<in> set (columns r)) (columns l) then Inl ValueError
      else Inr \<lparr>index_name = index_name l,
                columns = columns l @ columns r,
                rows = concat (map (\<lambda>x.
                  (case filter (\<lambda>y. fst y = fst x) (rows r) of
                     [] \<Rightarrow> [(fst x, snd x @ replicate (length (columns r)) NaN)]
                   | ms \<Rightarrow> map (\<lambda>y. (fst x, snd x @ snd y)) ms)) (rows l))\<rparr>)"

text \<open>\<^verbatim>\<open>f.rename(columns=m, inplace=True)\<close>: labels not in \<open>m\<close> stay.\<close>

definition rename_cols :: "(label \<times> label) list \<Rightarrow> frame \<Rightarrow> frame" where
  "rename_cols m f =
     f\<lparr>columns := map (\<lambda>c. case map_of m c of None \<Rightarrow> c | Some c' \<Rightarrow> c') (columns f)\<rparr>"

text \<open>
  \<^verbatim>\<open>pd.Series(v, index=f.columns)\<close>: the values of \<open>v\<close> under the column labels of
  \<open>f\<close>, position by position; as many values as labels, or ValueError.
\<close>

definition series :: "cell list \<Rightarrow> label list \<Rightarrow> error + (label \<times> cell) list" where
  "series v ls = (if length v \<noteq> length ls then Inl ValueError else Inr (zip ls v))"

text \<open>\<^verbatim>\<open>vects[i]\<close> on the array of loading vectors: a row, or IndexError.\<close>

definition get_row :: "'a list \<Rightarrow> nat \<Rightarrow> error + 'a" where
  "get_row xs i = (if i < length xs then Inr (xs ! i) else Inl IndexError)"

text \<open>
  The number of columns of an array, read off its first row (an array without rows
  counts as having no columns).
\<close>

definition ncols :: "cell list list \<Rightarrow> nat" where
  "ncols a = (case a of [] \<Rightarrow> 0 | r # _ \<Rightarrow> length r)"

text \<open>
  The routines of external libraries that the notebook calls are parameters of the
  pipeline: the exponent \<^verbatim>\<open>scipy.stats.boxcox\<close> estimates for a column, what
  \<^verbatim>\<open>StandardScaler\<close> does to a value of a column, the scores and the loading vectors of
  \<^verbatim>\<open>PCA()\<close>, and the labels of \<^verbatim>\<open>KMeans(n_clusters=3, random_state=13)\<close>.
  They are total functions here: an exception raised inside one of them, other than the
  one of \<^verbatim>\<open>boxcox\<close> above, is not modelled.
\<close>

record library =
  boxcox_lambda :: "cell list \<Rightarrow> real"
  scaler_cell :: "cell list \<Rightarrow> cell \<Rightarrow> cell"
  pca_fit_transform :: "cell list list \<Rightarrow> cell list list"
  pca_components :: "cell list list \<Rightarrow> cell list list"
  kmeans_labels :: "cell list list \<Rightarrow> cell list"

text \<open>
  What the notebook builds: the variables of these names as its last cell leaves them,
  except that \<open>pca_df\<close> is the frame of cell 55 and \<open>clustered\<close> is the frame
  that cell 67 puts into the variable \<^verbatim>\<open>pca_df\<close> again.
\<close>

record outputs =
  desc_df :: frame
  nutr_df :: frame
  nutr_df_TF :: "cell list list"
  pca_df :: frame
  c1 :: "(label \<times> cell) list"
  c2 :: "(label \<times> cell) list"
  clustered :: frame

text \<open>Cells 29 to 35: the shift, the power transform, the standard scaling.\<close>

definition normalize :: "library \<Rightarrow> frame \<Rightarrow> error + frame \<times> frame \<times> cell list list" where
  "normalize lib nutr =
     (case add_scalar 1 nutr of
        Inl e \<Rightarrow> Inl e
      | Inr n1 \<Rightarrow>
          (case power_transform (boxcox_lambda lib) n1 of
             Inl e \<Rightarrow> Inl e
           | Inr tf \<Rightarrow>
               Inr (n1, tf, fit_transform_scaler (scaler_cell lib) (length (columns tf))
                              (map snd (rows tf)))))"

text \<open>
  Cells 53 and 55:
  \<^verbatim>\<open>pca_df = pd.DataFrame(pca[:, :5], index=desc_df.index)\<close>,
  \<^verbatim>\<open>pca_df = pca_df.join(desc_df)\<close>,
  \<^verbatim>\<open>pca_df.drop(['FoodGroup', 'GmWt_Desc1', 'GmWt_2', 'GmWt_Desc2', 'Refuse_Pct', 'Shrt_Desc'], axis=1, inplace=True)\<close>,
  \<^verbatim>\<open>pca_df.rename(columns={0:'c1', 1:'c2', 2:'c3', 3:'c4', 4:'c5'}, inplace=True)\<close>.
\<close>

definition make_pca_df :: "cell list list \<Rightarrow> frame \<Rightarrow> error + frame" where
  "make_pca_df pca d =
     (case data_frame (min 5 (ncols pca)) (map (take 5) pca) d of
        Inl e \<Rightarrow> Inl e
      | Inr p \<Rightarrow>
          (case join p d of
             Inl e \<Rightarrow> Inl e
           | Inr p' \<Rightarrow>
               (case drop_cols [FoodGroup, Name ''GmWt_Desc1'', Name ''GmWt_2'',
                                Name ''GmWt_Desc2'', Name ''Refuse_Pct'', Shrt_Desc] p' of
                  Inl e \<Rightarrow> Inl e
                | Inr p'' \<Rightarrow>
                    Inr (rename_cols [(Pos 0, Name ''c1''), (Pos 1, Name ''c2''),
                                      (Pos 2, Name ''c3''), (Pos 3, Name ''c4''),
                                      (Pos 4, Name ''c5'')] p''))))"

text \<open>
  Cells 59 to 62: \<^verbatim>\<open>vects = fit.components_[:5]\<close>,
  \<^verbatim>\<open>c1 = pd.Series(vects[0], index=nutr_df.columns)\<close> and the same for
  \<^verbatim>\<open>vects[1]\<close>.
\<close>

definition loading_series :: "cell list list \<Rightarrow> nat \<Rightarrow> frame \<Rightarrow> error + (label \<times> cell) list" where
  "loading_series comps i nutr =
     (case get_row (take 5 comps) i of
        Inl e \<Rightarrow> Inl e
      | Inr v \<Rightarrow> series v (columns nutr))"

text \<open>
  Cell 67:
  \<^verbatim>\<open>pca_df = pd.DataFrame(pca[:, :5], index=desc_df.index)\<close>,
  \<^verbatim>\<open>pca_df['Cluster'] = kmeansmodel.labels_\<close>,
  \<^verbatim>\<open>pca_df = pca_df.join(desc_df)\<close>.
\<close>

definition make_clustered :: "cell list list \<Rightarrow> cell list \<Rightarrow> frame \<Rightarrow> error + frame" where
  "make_clustered pca labels d =
     (case data_frame (min 5 (ncols pca)) (map (take 5) pca) d of
        Inl e \<Rightarrow> Inl e
      | Inr p \<Rightarrow>
          (case set_column (Name ''Cluster'') labels p of
             Inl e \<Rightarrow> Inl e
           | Inr p' \<Rightarrow> join p' d))"

text \<open>
  The notebook from cell 16 on, run on the frame \<open>df\<close> that cell 4 has read and cell 11
  has cleaned. Plots and printed values are left out. The first exception ends the run.
\<close>

definition notebook :: "library \<Rightarrow> frame \<Rightarrow> error + outputs" where
  "notebook lib df =
     (case split_columns df of
        Inl e \<Rightarrow> Inl e
      | Inr (d, n) \<Rightarrow>
     (case normalize lib n of
        Inl e \<Rightarrow> Inl e
      | Inr (n1, tf, m) \<Rightarrow>
     (case make_pca_df (pca_fit_transform lib m) d of
        Inl e \<Rightarrow> Inl e
      | Inr p \<Rightarrow>
     (case loading_series (pca_components lib m) 0 n1 of
        Inl e \<Rightarrow> Inl e
      | Inr s1 \<Rightarrow>
     (case loading_series (pca_components lib m) 1 n1 of
        Inl e \<Rightarrow> Inl e
      | Inr s2 \<Rightarrow>
     (case make_clustered (pca_fit_transform lib m)
             (kmeans_labels lib (map (take 5) (pca_fit_transform lib m))) d of
        Inl e \<Rightarrow> Inl e
      | Inr cl \<Rightarrow>
          Inr \<lparr>desc_df = d, nutr_df = n1, nutr_df_TF = m, pca_df = p,
                c1 = s1, c2 = s2, clustered = cl\<rparr>))))))"

text \<open>
  The contract of the Cleaner's numeric output (spec, 3): distinct column names, one cell
  per column in every row, no missing value and no text, every cell a (finite) number.
\<close>

definition numeric_subset :: "frame \<Rightarrow> bool" where
  "numeric_subset f \<longleftrightarrow>
     csv_table f \<and>
     list_all (\<lambda>r. list_all is_number (snd r)) (rows f)"

text \<open>The numbers in the cells of a frame, row by row.\<close>

definition numbers :: "frame \<Rightarrow> real list" where
  "numbers f = concat (map (\<lambda>r. values_of (snd r)) (rows f))"

text \<open>
  The cells of a frame hold machine numbers: an integer cell a number of 64 bits, a
  floating-point cell a finite number of the format, which rounding leaves as it is.
\<close>

definition float64 :: "real \<Rightarrow> bool" where
  "float64 x \<longleftrightarrow> round64 x = x \<and> \<bar>x\<bar> < 2 ^ 1024"

fun machine_cell :: "cell \<Rightarrow> bool" where
  "machine_cell (Int64 i) \<longleftrightarrow> - (2 ^ 63) \<le> i \<and> i < 2 ^ 63"
| "machine_cell (Num x) \<longleftrightarrow> float64 x"
| "machine_cell c \<longleftrightarrow> True"

definition machine_frame :: "frame \<Rightarrow> bool" where
  "machine_frame f \<longleftrightarrow> list_all (\<lambda>r. list_all machine_cell (snd r)) (rows f)"

section \<open>Standardization (spec 4.2, step 2)\<close>

text \<open>The mean and the population standard deviation of a column of numbers.\<close>

definition mean :: "real list \<Rightarrow> real" where
  "mean xs = sum_list xs / real (length xs)"

definition pstd :: "real list \<Rightarrow> real" where
  "pstd xs = sqrt (mean (map (\<lambda>x. (x - mean xs)\<^sup>2) xs))"

text \<open>
  Modelled from the spec: what \<^verbatim>\<open>StandardScaler().fit_transform\<close> (cell 35), a routine
  of an external library that is not part of the sources, does to the array. The spec
  (4.2) says: for each column, subtract the column mean and divide by the column
  standard deviation, the population statistic; and (7): a degenerate zero-variance
  column is a NumericError. A column without a number has no deviation and counts as
  degenerate. On a column that is not degenerate \<open>standard_cell\<close> is the map that the
  parameter \<open>sc\<close> of \<open>fit_transform_scaler\<close> stands for.
\<close>

definition standard_cell :: "cell list \<Rightarrow> cell \<Rightarrow> cell" where
  "standard_cell col c =
     (case number_of c of
        Some x \<Rightarrow> Num ((x - mean (values_of col)) / pstd (values_of col))
      | None \<Rightarrow> c)"

definition standard_scaler :: "nat \<Rightarrow> cell list list \<Rightarrow> error + cell list list" where
  "standard_scaler n m =
     (if list_ex (\<lambda>j. values_of (array_column m j) = [] \<or> pstd (values_of (array_column m j)) = 0)
           [0..<n]
      then Inl NumericError
      else Inr (fit_transform_scaler standard_cell n m))"

text \<open>A numeric array of \<open>n\<close> columns: every row has \<open>n\<close> cells, each a number.\<close>

definition numeric_array :: "nat \<Rightarrow> cell list list \<Rightarrow> bool" where
  "numeric_array n m \<longleftrightarrow>
     list_all (\<lambda>r. length r = n \<and> list_all is_number r) m"

section \<open>Example tables\<close>

text \<open>
  A table of 54 columns laid out as the notebook expects its CSV file: the identifier,
  two text columns, 46 nutrient columns, and five columns of weights and refuse. The
  second of its three rows has missing values.
\<close>

definition nutrient_names :: "label list" where
  "nutrient_names =
     [Name ''N03'', Name ''N04'', Name ''N05'', Name ''N06'', Name ''N07'',
      Name ''N08'', Name ''N09'', Name ''N10'', Name ''N11'', Name ''N12'',
      Name ''N13'', Name ''N14'', Name ''N15'', Name ''N16'', Name ''N17'',
      Name ''N18'', Name ''N19'', Name ''N20'', Name ''N21'', Name ''N22'',
      Name ''N23'', Name ''N24'', Name ''N25'', Name ''N26'', Name ''N27'',
      Name ''N28'', Name ''N29'', Name ''N30'', Name ''N31'', Name ''N32'',
      Name ''N33'', Name ''N34'', Name ''N35'', Name ''N36'', Name ''N37'',
      Name ''N38'', Name ''N39'', Name ''N40'', Name ''N41'', Name ''N42'',
      Name ''N43'', Name ''N44'', Name ''N45'', Name ''N46'', Name ''N47'',
      Name ''N48'']"

definition table54 :: frame where
  "table54 =
     \<lparr>index_name = None,
      columns = [NDB_No, FoodGroup, Shrt_Desc] @ nutrient_names @
                [Name ''GmWt_1'', Name ''GmWt_Desc1'', Name ''GmWt_2'', Name ''GmWt_Desc2'',
                 Name ''Refuse_Pct''],
      rows =
        [(Int64 0, [Int64 1001, Txt ''Dairy'', Txt ''BUTTER''] @ map (\<lambda>j. Num 0) [3..<49] @
                 [Num 5, Txt ''1 pat'', Num 14.25, Txt ''1 tbsp'', Num 0]),
         (Int64 1, [Int64 1002, Txt ''Dairy'', Txt ''CHEESE''] @ map (\<lambda>j. Num 1) [3..<49] @
                 [NaN, NaN, NaN, NaN, Num 0]),
         (Int64 2, [Int64 1003, Txt ''Dairy'', Txt ''MILK''] @ map (\<lambda>j. Num 2) [3..<49] @
                 [Num 28.375, Txt ''1 oz'', Num 17, Txt ''1 cubic inch'', Num 0])]\<rparr>"

text \<open>The two frames cell 16 and cells 18 to 22 make of the cleaned example table.\<close>

definition desc54 :: frame where
  "desc54 =
     \<lparr>index_name = Some NDB_No,
      columns = [FoodGroup, Shrt_Desc, Name ''GmWt_Desc1'', Name ''GmWt_2'',
                 Name ''GmWt_Desc2'', Name ''Refuse_Pct''],
      rows =
        [(Int64 1001, [Txt ''Dairy'', Txt ''BUTTER'', Txt ''1 pat'', Num 14.25, Txt ''1 tbsp'', Num 0]),
         (Int64 1003, [Txt ''Dairy'', Txt ''MILK'', Txt ''1 oz'', Num 17, Txt ''1 cubic inch'', Num 0])]\<rparr>"

definition nutr54 :: frame where
  "nutr54 =
     \<lparr>index_name = Some NDB_No,
      columns = nutrient_names,
      rows = [(Int64 1001, map (\<lambda>j. Num 0) [3..<49]), (Int64 1003, map (\<lambda>j. Num 2) [3..<49])]\<rparr>"

text \<open>
  Stand-ins for the library routines on the example table: the exponent 0 for every
  column, a scaler that leaves the values, fixed scores for two rows, fixed loading
  vectors for 46 features, and the label 0 for every row.
\<close>

definition lib_ex :: library where
  "lib_ex =
     \<lparr>boxcox_lambda = (\<lambda>xs. 0),
      scaler_cell = (\<lambda>col c. c),
      pca_fit_transform = (\<lambda>m. [[Num 1, Num 0, Num 0, Num 0, Num 0, Num 0],
                                 [Num (- 1), Num 0, Num 0, Num 0, Num 0, Num 0]]),
      pca_components = (\<lambda>m. map (\<lambda>i. map (\<lambda>j. Num 0) [3..<49]) [0..<6]),
      kmeans_labels = (\<lambda>a. map (\<lambda>r. Int64 0) a)\<rparr>"

text \<open>
  Small numeric subsets of a floating-point and an integer column: one with a value of
  0, the same after the shift by 1, one with a value of \<open>-1\<close>, and one with the
  largest integer of 64 bits.
\<close>

definition nutr_ex :: frame where
  "nutr_ex =
     \<lparr>index_name = Some NDB_No,
      columns = [Name ''Water_(g)'', Name ''Energ_Kcal''],
      rows = [(Int64 1001, [Num 15.875, Int64 717]), (Int64 1002, [Num 0, Int64 884])]\<rparr>"

definition nutr_ex1 :: frame where
  "nutr_ex1 =
     \<lparr>index_name = Some NDB_No,
      columns = [Name ''Water_(g)'', Name ''Energ_Kcal''],
      rows = [(Int64 1001, [Num 16.875, Int64 718]), (Int64 1002, [Num 1, Int64 885])]\<rparr>"



section \<open>Positions in lists, and the operations of the split\<close>

lemma map_nth_filter_upt:
  "map (nth xs) (filter (\<lambda>j. P (xs ! j)) [0..<length xs]) = filter P xs"
proof (induction xs rule: rev_induct)
  case Nil
  then show ?case by simp
next
  case (snoc x xs)
  have "filter (\<lambda>j. P ((xs @ [x]) ! j)) [0..<length xs] = filter (\<lambda>j. P (xs ! j)) [0..<length xs]"
    by (rule filter_cong) (auto simp: nth_append)
  moreover have "map (nth (xs @ [x])) (filter (\<lambda>j. P (xs ! j)) [0..<length xs])
      = map (nth xs) (filter (\<lambda>j. P (xs ! j)) [0..<length xs])"
    by (rule map_cong) (auto simp: nth_append)
  ultimately show ?case using snoc by simp
qed

lemma iloc_cols_Inr:
  "iloc_cols js f = Inr g \<Longrightarrow>
     columns g = map (nth (columns f)) js \<and> index_name g = index_name f \<and>
     rows g = map (\<lambda>r. (fst r, map (nth (snd r)) js)) (rows f) \<and>
     list_all (\<lambda>j. j < length (columns f)) js"
  by (auto simp: iloc_cols_def list_ex_iff list_all_iff split: if_splits)

lemma drop_cols_Inr:
  "drop_cols ls f = Inr g \<Longrightarrow>
     columns g = filter (\<lambda>c. c \<notin> set ls) (columns f) \<and> index_name g = index_name f \<and>
     set ls \<subseteq> set (columns f)"
  using map_nth_filter_upt [of "columns f" "\<lambda>c. c \<notin> set ls"]
  by (auto simp: drop_cols_def Let_def split: if_splits)

lemma set_index_Inr:
  "set_index k f = Inr g \<Longrightarrow>
     k \<in> set (columns f) \<and> index_name g = Some k \<and>
     columns g = del_at (pos_of k (columns f)) (columns f) \<and>
     rows g = map (\<lambda>r. (snd r ! pos_of k (columns f), del_at (pos_of k (columns f)) (snd r))) (rows f)"
  by (auto simp: set_index_def Let_def split: if_splits)

lemma del_at_pos_of: "distinct xs \<Longrightarrow> del_at (pos_of k xs) xs = removeAll k xs"
proof (induction xs)
  case Nil
  then show ?case by (simp add: del_at_def pos_of_def)
next
  case (Cons x xs)
  then show ?case by (auto simp: del_at_def pos_of_def)
qed

lemma pos_of_less: "k \<in> set xs \<Longrightarrow> pos_of k xs < length xs"
  unfolding pos_of_def by (induction xs) auto

lemma nth_pos_of: "k \<in> set xs \<Longrightarrow> xs ! pos_of k xs = k"
  unfolding pos_of_def by (induction xs) auto

lemma pos_of_nth: "distinct xs \<Longrightarrow> j < length xs \<Longrightarrow> pos_of (xs ! j) xs = j"
  unfolding pos_of_def
  by (induction xs arbitrary: j) (auto simp: nth_Cons split: nat.splits)

section \<open>Cleaning\<close>

lemma rows_dropna: "rows (dropna f) = filter (\<lambda>r. NaN \<notin> set (snd r)) (rows f)"
  by (simp add: dropna_def)

lemma columns_dropna: "columns (dropna f) = columns f"
  by (simp add: dropna_def)

text \<open>
  Claim C8. Cleaning is idempotent: the missing-value filter applied to a frame that was
  already cleaned gives the same frame, so it removes no further row.
\<close>

theorem dropna_idempotent:
  "dropna (dropna t) = dropna t \<and> length (rows (dropna (dropna t))) = length (rows (dropna t))"
  by (simp add: dropna_def)

theorem dropna_idempotent_witness:
  "dropna (dropna \<lparr>index_name = None, columns = [NDB_No, Name ''Water_(g)''],
       rows = [(Int64 0, [Int64 1001, Num 15.875]), (Int64 1, [Int64 1002, NaN])]\<rparr>)
   = \<lparr>index_name = None, columns = [NDB_No, Name ''Water_(g)''],
       rows = [(Int64 0, [Int64 1001, Num 15.875])]\<rparr>"
  using dropna_idempotent
    [of "\<lparr>index_name = None, columns = [NDB_No, Name ''Water_(g)''],
       rows = [(Int64 0, [Int64 1001, Num 15.875]), (Int64 1, [Int64 1002, NaN])]\<rparr>"]
  by (simp add: dropna_def)

lemma csv_table_dropna: "csv_table t \<Longrightarrow> csv_table (dropna t)"
  by (simp add: csv_table_def dropna_def list_all_iff)

section \<open>The column split\<close>

lemma distinct_map_nth:
  "distinct xs \<Longrightarrow> distinct js \<Longrightarrow> list_all (\<lambda>j. j < length xs) js \<Longrightarrow> distinct (map (nth xs) js)"
  by (auto simp: distinct_map list_all_iff inj_on_def nth_eq_iff_index_eq)

lemma make_desc_df_Inr:
  assumes "distinct (columns df)" and "make_desc_df df = Inr d"
  shows "columns d = removeAll NDB_No (map (nth (columns df)) [0, 1, 2, 50, 51, 52, 53])
         \<and> index_name d = Some NDB_No
         \<and> NDB_No \<in> set (map (nth (columns df)) [0, 1, 2, 50, 51, 52, 53])
         \<and> 53 < length (columns df)"
proof -
  from assms(2) obtain g where g: "iloc_cols ([0, 1, 2] @ [50..<54]) df = Inr g"
    and d: "set_index NDB_No g = Inr d"
    by (auto simp: make_desc_df_def split: sum.splits)
  have js: "[0, 1, 2] @ [50..<54] = [0, 1, 2, 50, 51, 52, 53::nat]"
    by (simp add: upt_rec)
  from iloc_cols_Inr [OF g] have cg: "columns g = map (nth (columns df)) [0, 1, 2, 50, 51, 52, 53]"
    and lt: "list_all (\<lambda>j. j < length (columns df)) [0, 1, 2, 50, 51, 52, 53]"
    by (simp_all only: js)
  have "distinct (columns g)"
    unfolding cg by (rule distinct_map_nth [OF assms(1) _ lt]) simp
  with set_index_Inr [OF d] cg lt show ?thesis
    by (simp add: del_at_pos_of)
qed

lemma make_nutr_df_Inr:
  assumes "distinct (columns df)" and "make_nutr_df df = Inr n"
  shows "columns n = removeAll NDB_No
           (filter (\<lambda>c. c \<notin> {FoodGroup, Shrt_Desc}) (take (length (columns df) - 5) (columns df)))
         \<and> index_name n = Some NDB_No
         \<and> NDB_No \<in> set (take (length (columns df) - 5) (columns df))"
proof -
  from assms(2) obtain g where g: "drop_cols [FoodGroup, Shrt_Desc] (iloc_cols_but_last 5 df) = Inr g"
    and n: "set_index NDB_No g = Inr n"
    by (auto simp: make_nutr_df_def split: sum.splits)
  from drop_cols_Inr [OF g]
  have cg: "columns g = filter (\<lambda>c. c \<notin> {FoodGroup, Shrt_Desc}) (take (length (columns df) - 5) (columns df))"
    by (simp add: iloc_cols_but_last_def)
  have "distinct (columns g)"
    unfolding cg using assms(1) by simp
  with set_index_Inr [OF n] cg show ?thesis
    by (auto simp: del_at_pos_of)
qed

lemma nth_notin_take: "distinct xs \<Longrightarrow> k \<le> j \<Longrightarrow> j < length xs \<Longrightarrow> xs ! j \<notin> set (take k xs)"
  by (auto simp: in_set_conv_nth nth_eq_iff_index_eq)

text \<open>
  Claim C10. For a table of 54 columns the column split is no partition: the descriptive
  subset takes the columns at positions 0 to 2 and 50 to 53, the numeric subset takes the
  columns at positions 0 to 48 without the two named text columns (in both, the
  identifier \<open>NDB_No\<close> leaves the columns and becomes the index), and the column at
  position 49 is in neither subset; the split raises no error for it.
\<close>

theorem column_49_in_neither_subset:
  assumes "length (columns df) = 54" and "distinct (columns df)"
    and "split_columns df = Inr (d, n)"
  shows "columns d = removeAll NDB_No (map (nth (columns df)) [0, 1, 2, 50, 51, 52, 53]) \<and>
         columns n = removeAll NDB_No
           (filter (\<lambda>c. c \<notin> {FoodGroup, Shrt_Desc}) (take 49 (columns df))) \<and>
         index_name d = Some NDB_No \<and> index_name n = Some NDB_No \<and>
         columns df ! 49 \<noteq> NDB_No \<and>
         columns df ! 49 \<notin> set (columns d) \<and> columns df ! 49 \<notin> set (columns n)"
proof -
  from assms(3) have d: "make_desc_df df = Inr d" and n: "make_nutr_df df = Inr n"
    by (auto simp: split_columns_def split: sum.splits)
  note D = make_desc_df_Inr [OF assms(2) d]
  note N = make_nutr_df_Inr [OF assms(2) n]
  have out: "columns df ! 49 \<notin> set (take 49 (columns df))"
    by (rule nth_notin_take [OF assms(2)]) (simp_all add: assms(1))
  have sel: "columns df ! 49 \<notin> set (map (nth (columns df)) [0, 1, 2, 50, 51, 52, 53])"
    using assms(1,2) by (simp add: nth_eq_iff_index_eq)
  from N assms(1) have "NDB_No \<in> set (take 49 (columns df))" by simp
  with out have ne: "columns df ! 49 \<noteq> NDB_No" by auto
  from D N assms(1) out sel ne show ?thesis by simp
qed

lemma csv_table54: "csv_table table54"
  by (simp add: csv_table_def table54_def nutrient_names_def NDB_No_def FoodGroup_def Shrt_Desc_def)

lemma split_table54: "split_columns (dropna table54) = Inr (desc54, nutr54)"
  by (simp add: split_columns_def make_desc_df_def make_nutr_df_def iloc_cols_def
      iloc_cols_but_last_def drop_cols_def set_index_def pos_of_def del_at_def dropna_def
      table54_def desc54_def nutr54_def nutrient_names_def NDB_No_def FoodGroup_def
      Shrt_Desc_def Let_def)

theorem column_49_in_neither_subset_witness:
  "length (columns (dropna table54)) = 54 \<and> distinct (columns (dropna table54)) \<and>
   split_columns (dropna table54) = Inr (desc54, nutr54) \<and>
   columns (dropna table54) ! 49 = Name ''GmWt_1'' \<and>
   Name ''GmWt_1'' \<notin> set (columns desc54) \<and> Name ''GmWt_1'' \<notin> set (columns nutr54) \<and>
   index_name desc54 = Some NDB_No \<and> index_name nutr54 = Some NDB_No"
proof -
  have l: "length (columns (dropna table54)) = 54"
    by (simp add: columns_dropna table54_def nutrient_names_def)
  have d: "distinct (columns (dropna table54))"
    using csv_table54 by (simp add: columns_dropna csv_table_def)
  have c: "columns (dropna table54) ! 49 = Name ''GmWt_1''"
    by (simp add: columns_dropna table54_def nutrient_names_def)
  note t = column_49_in_neither_subset [OF l d split_table54, unfolded c]
  from t l d c split_table54 show ?thesis by blast
qed

section \<open>Machine numbers\<close>

lemma round_half_even_of_int: "round_half_even (of_int k) = k"
  by (simp add: round_half_even_def)

lemma round_half_even_ge: "1 \<le> y \<Longrightarrow> 1 \<le> round_half_even y"
proof -
  assume "1 \<le> y"
  then have "1 \<le> \<lfloor>y\<rfloor>" by simp
  then show ?thesis by (auto simp: round_half_even_def Let_def)
qed

lemma wrap64_id: "- (2 ^ 63) \<le> i \<Longrightarrow> i < 2 ^ 63 \<Longrightarrow> wrap64 i = i"
  by (simp add: wrap64_def)

lemma wrap64_max: "wrap64 (2 ^ 63 - 1 + 1) = - (2 ^ 63)"
  by (simp add: wrap64_def)

lemma pow2_exp_floor: "0 < y \<Longrightarrow> 2 powr of_int \<lfloor>log 2 y\<rfloor> \<le> y"
proof -
  assume y: "0 < y"
  have "2 powr of_int \<lfloor>log 2 y\<rfloor> \<le> 2 powr (log 2 y)"
    by (rule powr_mono) simp_all
  also have "\<dots> = y" using y by simp
  finally show ?thesis .
qed

lemma float_grid:
  assumes "round64 x = x"
  shows "\<exists>n. x = of_int n * 2 powr (- 1074)"
proof (cases "x = 0")
  case True
  then show ?thesis by (intro exI [of _ 0]) simp
next
  case False
  define q where "q = max (\<lfloor>log 2 \<bar>x\<bar>\<rfloor> - 52) (- 1074)"
  define n where "n = round_half_even (x / 2 powr of_int q)"
  have q: "- 1074 \<le> q" by (simp add: q_def)
  from assms False have x: "x = of_int n * 2 powr of_int q"
    by (simp add: round64_def q_def n_def Let_def)
  have "(2::real) powr of_int q = of_int (2 ^ nat (q + 1074)) * 2 powr (- 1074)"
  proof -
    have "(2::real) powr of_int q = 2 powr (of_int (q + 1074) + (- 1074))" by simp
    also have "\<dots> = 2 powr of_int (q + 1074) * 2 powr (- 1074)"
      by (simp only: powr_add)
    also have "2 powr of_int (q + 1074) = (2::real) ^ nat (q + 1074)"
      using q by (simp add: powr_realpow [symmetric])
    finally show ?thesis by simp
  qed
  with x have "x = of_int (n * 2 ^ nat (q + 1074)) * 2 powr (- 1074)" by simp
  then show ?thesis by blast
qed

lemma round64_shift_pos:
  assumes "round64 x = x" and "- 1 < x"
  shows "0 < round64 (x + 1)"
proof -
  from float_grid [OF assms(1)] obtain n where n: "x = of_int n * 2 powr (- 1074)" by blast
  let ?y = "x + 1"
  from assms(2) have y: "0 < ?y" by simp
  define q where "q = max (\<lfloor>log 2 \<bar>?y\<bar>\<rfloor> - 52) (- 1074)"
  have one: "(1::real) = of_int (2 ^ 1074) * 2 powr (- 1074)"
    by (simp add: powr_minus powr_realpow [symmetric])
  have yn: "?y = of_int (n + 2 ^ 1074) * 2 powr (- 1074)"
    using n one by (simp add: algebra_simps)
  have t: "1 \<le> ?y / 2 powr of_int q"
  proof (cases "\<lfloor>log 2 \<bar>?y\<bar>\<rfloor> - 52 \<le> - 1074")
    case True
    then have "q = - 1074" by (simp add: q_def)
    then have "?y / 2 powr of_int q = of_int (n + 2 ^ 1074)"
      using yn by simp
    moreover have "0 < n + 2 ^ 1074"
      using y yn by (simp add: zero_less_mult_iff)
    ultimately show ?thesis by simp
  next
    case False
    then have qe: "q = \<lfloor>log 2 ?y\<rfloor> - 52" using y by (simp add: q_def)
    define P where "P = (2::real) powr of_int \<lfloor>log 2 ?y\<rfloor>"
    define K where "K = (2::real) powr 52"
    have P: "0 < P" and Py: "P \<le> ?y"
      using pow2_exp_floor [OF y] by (simp_all add: P_def)
    have K: "1 \<le> K" by (simp add: K_def)
    have "(2::real) powr of_int q = P / K"
      by (simp only: qe P_def K_def of_int_diff of_int_numeral powr_diff)
    then have eq: "?y / 2 powr of_int q = ?y * K / P"
      by simp
    have "P * 1 \<le> ?y * K"
      by (rule mult_mono) (use Py P K in simp_all)
    then have "1 \<le> ?y * K / P"
      using P by (simp add: le_divide_eq)
    then show ?thesis by (simp only: eq)
  qed
  from round_half_even_ge [OF t] have "0 < round_half_even (?y / 2 powr of_int q)" by simp
  then have "0 < real_of_int (round_half_even (?y / 2 powr of_int q)) * 2 powr of_int q"
    by simp
  then show ?thesis using y by (simp add: round64_def q_def Let_def)
qed


lemma floor_log2_int:
  assumes "m \<noteq> 0" and "\<bar>m\<bar> < 2 ^ 53"
  shows "\<lfloor>log 2 \<bar>real_of_int m\<bar>\<rfloor> \<le> 52"
proof -
  have pos: "0 < \<bar>real_of_int m\<bar>" using assms(1) by simp
  have "\<bar>real_of_int m\<bar> < 2 ^ 53"
    using assms(2) by (metis of_int_abs of_int_less_numeral_power_cancel_iff)
  then have "log 2 \<bar>real_of_int m\<bar> < log 2 (2 ^ 53)"
    using pos by simp
  also have "log 2 ((2::real) ^ 53) = real 53 * log 2 2"
    by (rule log_nat_power) simp
  also have "\<dots> = 53" by simp
  finally have "log 2 \<bar>real_of_int m\<bar> < 53" .
  then have "\<lfloor>log 2 \<bar>real_of_int m\<bar>\<rfloor> < 53"
    by (simp add: floor_less_iff)
  then show ?thesis by simp
qed

lemma round64_dyadic:
  assumes "\<bar>m\<bar> < 2 ^ 53" and "- 1074 \<le> e"
  shows "round64 (of_int m * 2 powr of_int e) = of_int m * 2 powr of_int e"
proof (cases "m = 0")
  case True
  then show ?thesis by (simp add: round64_def)
next
  case False
  let ?x = "real_of_int m * 2 powr of_int e"
  have x0: "?x \<noteq> 0" using False by simp
  have "log 2 \<bar>?x\<bar> = log 2 \<bar>real_of_int m\<bar> + of_int e"
    using False by (simp add: abs_mult log_mult)
  then have fl: "\<lfloor>log 2 \<bar>?x\<bar>\<rfloor> = \<lfloor>log 2 \<bar>real_of_int m\<bar>\<rfloor> + e"
    by simp
  define q where "q = max (\<lfloor>log 2 \<bar>?x\<bar>\<rfloor> - 52) (- 1074)"
  have qe: "q \<le> e"
    using floor_log2_int [OF False assms(1)] assms(2) by (simp add: q_def fl)
  have split: "(2::real) powr of_int e = 2 ^ nat (e - q) * 2 powr of_int q"
  proof -
    have "(2::real) powr of_int e = 2 powr (of_int (e - q) + of_int q)" by simp
    also have "\<dots> = 2 powr of_int (e - q) * 2 powr of_int q"
      by (simp only: powr_add)
    also have "(2::real) powr of_int (e - q) = 2 ^ nat (e - q)"
      using qe by (simp add: powr_realpow [symmetric])
    finally show ?thesis .
  qed
  have "?x / 2 powr of_int q = of_int (m * 2 ^ nat (e - q))"
    by (simp add: split)
  then have "round_half_even (?x / 2 powr of_int q) = m * 2 ^ nat (e - q)"
    by (simp only: round_half_even_of_int)
  then have "real_of_int (round_half_even (?x / 2 powr of_int q)) * 2 powr of_int q = ?x"
    by (simp add: split)
  then show ?thesis
    using x0 by (simp add: round64_def q_def Let_def)
qed

lemma round64_fraction:
  "\<bar>m\<bar> < 2 ^ 53 \<Longrightarrow> k \<le> 1074 \<Longrightarrow> round64 (of_int m / 2 ^ k) = of_int m / 2 ^ k"
  using round64_dyadic [of m "- int k"]
  by (simp add: powr_minus powr_realpow divide_inverse)

lemma float64_fraction:
  "\<bar>m\<bar> < 2 ^ 53 \<Longrightarrow> k \<le> 1074 \<Longrightarrow> float64 (of_int m / 2 ^ k)"
proof -
  assume m: "\<bar>m\<bar> < 2 ^ 53" and k: "k \<le> 1074"
  have "\<bar>real_of_int m\<bar> < 2 ^ 53"
    using m by (metis of_int_abs of_int_less_numeral_power_cancel_iff)
  moreover have "(1::real) \<le> 2 ^ k" by simp
  then have "\<bar>real_of_int m\<bar> / 2 ^ k \<le> \<bar>real_of_int m\<bar> / 1"
    by (intro divide_left_mono) simp_all
  ultimately have "\<bar>real_of_int m\<bar> / 2 ^ k < 2 ^ 53"
    by simp
  also have "\<dots> < (2::real) ^ 1024" by simp
  finally have "\<bar>real_of_int m / 2 ^ k\<bar> < 2 ^ 1024"
    by (simp add: abs_divide)
  with round64_fraction [OF m k] show ?thesis
    by (simp add: float64_def)
qed

lemma shift_cell_positive:
  assumes "machine_cell c" and "number_of c = Some x" and "- 1 < x"
    and "c \<noteq> Int64 (2 ^ 63 - 1)"
  shows "\<exists>y. number_of (shift_cell 1 c) = Some y \<and> 0 < y"
proof (cases c)
  case (Int64 i)
  with assms have "0 \<le> i" and "i < 2 ^ 63 - 1" by auto
  then have "wrap64 (i + 1) = i + 1" and "0 < i + 1"
    by (simp_all add: wrap64_id)
  with Int64 show ?thesis by simp
next
  case (Num z)
  with assms have "round64 z = z" and "- 1 < z"
    by (simp_all add: float64_def)
  from round64_shift_pos [OF this] Num show ?thesis by simp
qed (use assms in simp_all)

section \<open>The shift by 1\<close>

lemma collect_map_Inr:
  "(\<And>x. x \<in> set xs \<Longrightarrow> f x = Inr (g x)) \<Longrightarrow> collect (map f xs) = Inr (map g xs)"
  by (induction xs) auto

lemma collect_map_defined:
  "collect (map f xs) = Inr ys \<Longrightarrow> x \<in> set xs \<Longrightarrow> \<exists>y. f x = Inr y"
  by (induction xs arbitrary: ys) (auto split: sum.splits)

lemma add_cell_Inr: "(\<forall>s. c \<noteq> Txt s) \<Longrightarrow> add_cell k c = Inr (shift_cell k c)"
  by (cases c) auto

lemma add_cell_Txt: "add_cell k c = Inr c' \<Longrightarrow> c \<noteq> Txt s"
  by (cases c) auto

lemma add_scalar_no_text:
  assumes "\<And>r s. r \<in> set (rows f) \<Longrightarrow> Txt s \<notin> set (snd r)"
  shows "add_scalar k f =
    Inr (f\<lparr>rows := map (\<lambda>r. (fst r, map (shift_cell k) (snd r))) (rows f)\<rparr>)"
proof -
  have row: "collect (map (add_cell k) (snd r)) = Inr (map (shift_cell k) (snd r))"
    if "r \<in> set (rows f)" for r
  proof (rule collect_map_Inr, rule add_cell_Inr, intro allI notI)
    fix c s
    assume "c \<in> set (snd r)" and "c = Txt s"
    with assms [OF that, of s] show False by simp
  qed
  have "collect (map (\<lambda>r. case collect (map (add_cell k) (snd r)) of
                            Inl e \<Rightarrow> Inl e | Inr cs \<Rightarrow> Inr (fst r, cs)) (rows f))
      = Inr (map (\<lambda>r. (fst r, map (shift_cell k) (snd r))) (rows f))"
    by (rule collect_map_Inr) (simp add: row)
  then show ?thesis by (simp add: add_scalar_def)
qed

lemma add_scalar_Inr_no_text:
  assumes "add_scalar k f = Inr g" and "r \<in> set (rows f)"
  shows "Txt s \<notin> set (snd r)"
proof
  assume t: "Txt s \<in> set (snd r)"
  from assms(1) obtain rs where
    "collect (map (\<lambda>r. case collect (map (add_cell k) (snd r)) of
                            Inl e \<Rightarrow> Inl e | Inr cs \<Rightarrow> Inr (fst r, cs)) (rows f)) = Inr rs"
    by (auto simp: add_scalar_def split: sum.splits)
  from collect_map_defined [OF this assms(2)]
  obtain cs where "collect (map (add_cell k) (snd r)) = Inr cs"
    by (auto split: sum.splits)
  from collect_map_defined [OF this t] show False by auto
qed

lemma add_scalar_Inr:
  assumes "add_scalar k f = Inr g"
  shows "g = f\<lparr>rows := map (\<lambda>r. (fst r, map (shift_cell k) (snd r))) (rows f)\<rparr>"
  using add_scalar_no_text [of f k] add_scalar_Inr_no_text [OF assms] assms by auto

section \<open>The power transform\<close>

lemma set_column_Inr_length:
  "set_column k vs f = Inr g \<Longrightarrow> length vs = length (rows f)"
  by (auto simp: set_column_def split: if_splits)

lemma set_column_length_Inr:
  "length vs = length (rows f) \<Longrightarrow> \<exists>g. set_column k vs f = Inr g"
  by (auto simp: set_column_def)

lemma set_column_index:
  assumes "set_column k vs f = Inr g"
  shows "index g = index f \<and> index_name g = index_name f \<and> length (rows g) = length (rows f)"
proof -
  have l: "length vs = length (rows f)" by (rule set_column_Inr_length [OF assms])
  have "map fst (map (\<lambda>(r, v). (fst r, h r v)) (zip (rows f) vs)) = map fst (rows f)"
    for h :: "cell \<times> cell list \<Rightarrow> cell \<Rightarrow> cell list"
    using l by (simp add: list_eq_iff_nth_eq split_beta)
  then show ?thesis using assms l
    by (auto simp: set_column_def index_def split: if_splits)
qed

lemma set_column_new:
  assumes "set_column k vs f = Inr g" and "k \<notin> set (columns f)"
    and "list_all (\<lambda>r. length (snd r) = length (columns f)) (rows f)"
  shows "columns g = columns f @ [k]"
    and "list_all (\<lambda>r. length (snd r) = length (columns g)) (rows g)"
    and "j < length (columns f) \<Longrightarrow> column g j = column f j"
    and "column g (length (columns f)) = vs"
proof -
  have l: "length vs = length (rows f)" by (rule set_column_Inr_length [OF assms(1)])
  from assms(1,2) l have g: "g = f\<lparr>columns := columns f @ [k],
      rows := map (\<lambda>(r, v). (fst r, snd r @ [v])) (zip (rows f) vs)\<rparr>"
    by (simp add: set_column_def)
  show "columns g = columns f @ [k]" by (simp add: g)
  from assms(3) show "list_all (\<lambda>r. length (snd r) = length (columns g)) (rows g)"
    using l by (simp add: g list_all_length)
  have len: "length (snd (rows f ! i)) = length (columns f)" if "i < length (rows f)" for i
    using assms(3) that by (simp add: list_all_length)
  show "column g j = column f j" if "j < length (columns f)"
    using that l len by (auto simp: g column_def list_eq_iff_nth_eq nth_append)
  show "column g (length (columns f)) = vs"
    using l len by (auto simp: g column_def list_eq_iff_nth_eq nth_append)
qed

lemma boxcox_Inr:
  "boxcox lam xs = Inr ys \<Longrightarrow> ys = map (boxcox_value (lam xs)) xs"
  by (auto simp: boxcox_def split: if_splits)

lemma boxcox_loop_Inr:
  assumes "boxcox_loop lam nutr cols tf = Inr tf'"
    and "distinct (map format_TF cols)"
    and "set (map format_TF cols) \<inter> set (columns tf) = {}"
    and "list_all (\<lambda>r. length (snd r) = length (columns tf)) (rows tf)"
  shows "columns tf' = columns tf @ map format_TF cols \<and>
         index tf' = index tf \<and> index_name tf' = index_name tf \<and>
         list_all (\<lambda>r. length (snd r) = length (columns tf')) (rows tf') \<and>
         (\<forall>j<length (columns tf). column tf' j = column tf j) \<and>
         (\<forall>k<length cols. boxcox lam (loc_col nutr (cols ! k))
                            = Inr (column tf' (length (columns tf) + k)))"
  using assms
proof (induction cols arbitrary: tf)
  case Nil
  then show ?case by simp
next
  case (Cons col cols)
  from Cons.prems(1) obtain ys tf1 where
    ys: "boxcox lam (loc_col nutr col) = Inr ys"
    and tf1: "set_column (format_TF col) ys tf = Inr tf1"
    and rest: "boxcox_loop lam nutr cols tf1 = Inr tf'"
    by (auto split: sum.splits)
  from Cons.prems(3) have new: "format_TF col \<notin> set (columns tf)" by auto
  note S = set_column_new [OF tf1 new Cons.prems(4)]
  note I = set_column_index [OF tf1]
  have disj: "set (map format_TF cols) \<inter> set (columns tf1) = {}"
    using Cons.prems(2,3) by (auto simp: S(1))
  from Cons.prems(2) have dist: "distinct (map format_TF cols)" by simp
  note IH = Cons.IH [OF rest dist disj S(2)]
  have c0: "column tf' (length (columns tf)) = ys"
    using IH S(4) by (simp add: S(1))
  have old: "column tf' j = column tf j" if "j < length (columns tf)" for j
    using IH S(3) [OF that] that by (simp add: S(1))
  have new_cols: "boxcox lam (loc_col nutr ((col # cols) ! k))
                    = Inr (column tf' (length (columns tf) + k))" if "k < length (col # cols)" for k
  proof (cases k)
    case 0
    then show ?thesis using ys c0 by simp
  next
    case (Suc k')
    with that IH show ?thesis by (simp add: S(1))
  qed
  have "columns tf' = columns tf @ map format_TF (col # cols)"
    using IH by (simp add: S(1))
  moreover have "list_all (\<lambda>r. length (snd r) = length (columns tf')) (rows tf')"
    using IH by blast
  moreover have "index tf' = index tf" and "index_name tf' = index_name tf"
    using IH I by simp_all
  ultimately show ?case using old new_cols by blast
qed

lemma boxcox_loop_total:
  "length (rows tf) = length (rows nutr) \<Longrightarrow>
   (\<And>col. col \<in> set cols \<Longrightarrow> \<exists>ys. boxcox lam (loc_col nutr col) = Inr ys) \<Longrightarrow>
   \<exists>tf'. boxcox_loop lam nutr cols tf = Inr tf'"
proof (induction cols arbitrary: tf)
  case Nil
  then show ?case by simp
next
  case (Cons col cols)
  from Cons.prems(2) [of col] obtain ys where ys: "boxcox lam (loc_col nutr col) = Inr ys"
    by auto
  then have "length ys = length (rows tf)"
    using Cons.prems(1) by (auto dest!: boxcox_Inr simp: loc_col_def column_def)
  from set_column_length_Inr [OF this] obtain tf1 where
    tf1: "set_column (format_TF col) ys tf = Inr tf1" by blast
  with set_column_index [OF tf1] Cons.prems(1)
  have "length (rows tf1) = length (rows nutr)" by simp
  from Cons.IH [OF this] Cons.prems(2) ys tf1 show ?case by simp
qed

lemma boxcox_loop_error:
  "length (rows tf) = length (rows nutr) \<Longrightarrow> boxcox_loop lam nutr cols tf = Inl e \<Longrightarrow>
   \<exists>col \<in> set cols. boxcox lam (loc_col nutr col) = Inl e"
proof (induction cols arbitrary: tf)
  case Nil
  then show ?case by simp
next
  case (Cons col cols)
  show ?case
  proof (cases "boxcox lam (loc_col nutr col)")
    case (Inl e')
    with Cons.prems(2) show ?thesis by simp
  next
    case (Inr ys)
    then have "length ys = length (rows tf)"
      using Cons.prems(1) by (auto dest!: boxcox_Inr simp: loc_col_def column_def)
    from set_column_length_Inr [OF this] obtain tf1 where
      tf1: "set_column (format_TF col) ys tf = Inr tf1" by blast
    with set_column_index [OF tf1] Cons.prems(1)
    have "length (rows tf1) = length (rows nutr)" by simp
    from Cons.IH [OF this] Cons.prems(2) Inr tf1 show ?thesis by simp
  qed
qed

lemma boxcox_loop_fails:
  "col \<in> set cols \<Longrightarrow> boxcox lam (loc_col nutr col) = Inl e \<Longrightarrow>
   \<exists>e'. boxcox_loop lam nutr cols tf = Inl e'"
  by (induction cols arbitrary: tf) (auto split: sum.splits)

lemma is_number_iff: "is_number c \<longleftrightarrow> (\<exists>x. number_of c = Some x)"
  by (cases c) auto

lemma set_values_of: "x \<in> set (values_of cs) \<longleftrightarrow> (\<exists>c \<in> set cs. number_of c = Some x)"
  unfolding values_of_def by (induction cs) (auto split: option.splits)

lemma set_numbers:
  "x \<in> set (numbers f) \<longleftrightarrow> (\<exists>r \<in> set (rows f). \<exists>c \<in> set (snd r). number_of c = Some x)"
  by (auto simp: numbers_def set_values_of)

lemma format_TF_distinct:
  assumes "distinct cols"
    and "list_all (\<lambda>c. case c of Name _ \<Rightarrow> True | Pos _ \<Rightarrow> False) cols"
  shows "distinct (map format_TF cols)"
proof -
  have "inj_on format_TF (set cols)"
  proof (rule inj_onI)
    fix a b
    assume "a \<in> set cols" and "b \<in> set cols" and eq: "format_TF a = format_TF b"
    with assms(2) show "a = b"
      by (cases a; cases b) (auto simp: list_all_iff)
  qed
  with assms(1) show ?thesis by (simp add: distinct_map)
qed

lemma loc_col_nth:
  "distinct (columns f) \<Longrightarrow> j < length (columns f) \<Longrightarrow> loc_col f (columns f ! j) = column f j"
  by (simp add: loc_col_def pos_of_nth)

lemma power_transform_Inr:
  assumes "csv_table n1" and "power_transform lam n1 = Inr tf"
  shows "columns tf = map format_TF (columns n1) \<and>
         index tf = index n1 \<and> index_name tf = index_name n1 \<and>
         list_all (\<lambda>r. length (snd r) = length (columns tf)) (rows tf) \<and>
         (\<forall>j<length (columns n1).
            column tf j = map (boxcox_value (lam (column n1 j))) (column n1 j))"
proof -
  let ?tf0 = "\<lparr>index_name = index_name n1, columns = [],
               rows = map (\<lambda>r. (fst r, [])) (rows n1)\<rparr>"
  from assms(1) have d: "distinct (columns n1)"
    and nm: "list_all (\<lambda>c. case c of Name _ \<Rightarrow> True | Pos _ \<Rightarrow> False) (columns n1)"
    by (simp_all add: csv_table_def)
  have loop: "boxcox_loop lam n1 (columns n1) ?tf0 = Inr tf"
    using assms(2) by (simp add: power_transform_def)
  have rect0: "list_all (\<lambda>r. length (snd r) = length (columns ?tf0)) (rows ?tf0)"
    by (simp add: list_all_iff)
  have disj: "set (map format_TF (columns n1)) \<inter> set (columns ?tf0) = {}"
    by simp
  note L = boxcox_loop_Inr [OF loop format_TF_distinct [OF d nm] disj rect0]
  have idx: "index ?tf0 = index n1"
    by (simp add: index_def comp_def)
  have col: "column tf j = map (boxcox_value (lam (column n1 j))) (column n1 j)"
    if "j < length (columns n1)" for j
  proof -
    from L that have "boxcox lam (loc_col n1 (columns n1 ! j)) = Inr (column tf j)" by simp
    then show ?thesis using boxcox_Inr loc_col_nth [OF d that] by auto
  qed
  have "columns tf = map format_TF (columns n1)"
    using L by simp
  moreover have "list_all (\<lambda>r. length (snd r) = length (columns tf)) (rows tf)"
    using L by blast
  moreover have "index tf = index n1" and "index_name tf = index_name n1"
    using L idx by simp_all
  ultimately show ?thesis using col by blast
qed

lemma numeric_column:
  assumes "numeric_subset f" and "j < length (columns f)" and "c \<in> set (column f j)"
  shows "\<exists>x. number_of c = Some x \<and> x \<in> set (numbers f)"
proof -
  from assms(3) obtain r where r: "r \<in> set (rows f)" and c: "c = snd r ! j"
    by (auto simp: column_def)
  from assms(1) r have "length (snd r) = length (columns f)"
    by (simp add: numeric_subset_def csv_table_def list_all_iff)
  with assms(2) c have m: "c \<in> set (snd r)" by simp
  with assms(1) r obtain x where "number_of c = Some x"
    by (auto simp: numeric_subset_def list_all_iff is_number_iff)
  with m r show ?thesis by (auto simp: set_numbers)
qed

lemma numbers_in_column:
  assumes "numeric_subset f" and "x \<in> set (numbers f)"
  shows "\<exists>j<length (columns f). \<exists>c \<in> set (column f j). number_of c = Some x"
proof -
  from assms(2) obtain r c where r: "r \<in> set (rows f)" and c: "c \<in> set (snd r)"
    and x: "number_of c = Some x"
    by (auto simp: set_numbers)
  from c obtain j where j: "j < length (snd r)" and e: "snd r ! j = c"
    by (auto simp: in_set_conv_nth)
  from assms(1) r have "length (snd r) = length (columns f)"
    by (simp add: numeric_subset_def csv_table_def list_all_iff)
  with j e r x show ?thesis by (force simp: column_def)
qed

lemma boxcox_numeric:
  assumes "\<And>c. c \<in> set xs \<Longrightarrow> \<exists>x. number_of c = Some x"
  shows "boxcox lam xs =
     (if \<exists>c \<in> set xs. \<exists>x. number_of c = Some x \<and> x \<le> 0 then Inl NumericError
      else Inr (map (boxcox_value (lam xs)) xs))"
proof -
  have "\<not> (case c of Txt _ \<Rightarrow> True | _ \<Rightarrow> False)" if "c \<in> set xs" for c
    using assms [OF that] by (cases c) auto
  then have "\<not> list_ex (\<lambda>c. case c of Txt _ \<Rightarrow> True | _ \<Rightarrow> False) xs"
    by (simp add: list_ex_iff)
  moreover have "list_ex (\<lambda>c. case number_of c of Some x \<Rightarrow> x \<le> 0 | None \<Rightarrow> False) ys
      \<longleftrightarrow> (\<exists>c \<in> set ys. \<exists>x. number_of c = Some x \<and> x \<le> 0)" for ys
    by (induction ys) (auto split: option.splits)
  ultimately show ?thesis by (simp add: boxcox_def)
qed

lemma power_transform_length:
  "length (rows \<lparr>index_name = index_name n1, columns = [],
               rows = map (\<lambda>r. (fst r, [])) (rows n1)\<rparr>) = length (rows n1)"
  by simp

lemma power_transform_positive:
  assumes "numeric_subset n1" and "list_all (\<lambda>x. 0 < x) (numbers n1)"
  shows "\<exists>tf. power_transform lam n1 = Inr tf"
  unfolding power_transform_def
proof (rule boxcox_loop_total [OF power_transform_length])
  fix col
  assume "col \<in> set (columns n1)"
  then obtain j where j: "j < length (columns n1)" and col: "col = columns n1 ! j"
    by (auto simp: in_set_conv_nth)
  from assms(1) have d: "distinct (columns n1)"
    by (simp add: numeric_subset_def csv_table_def)
  have num: "\<exists>x. number_of c = Some x" if "c \<in> set (column n1 j)" for c
    using numeric_column [OF assms(1) j that] by blast
  have "\<not> (\<exists>c \<in> set (column n1 j). \<exists>x. number_of c = Some x \<and> x \<le> 0)"
  proof
    assume "\<exists>c \<in> set (column n1 j). \<exists>x. number_of c = Some x \<and> x \<le> 0"
    then obtain c x where c: "c \<in> set (column n1 j)" and x: "number_of c = Some x"
      and le: "x \<le> 0" by blast
    from numeric_column [OF assms(1) j c] x have "x \<in> set (numbers n1)" by simp
    with assms(2) le show False by (auto simp: list_all_iff)
  qed
  with boxcox_numeric [of "column n1 j" lam, OF num]
  show "\<exists>ys. boxcox lam (loc_col n1 col) = Inr ys"
    by (simp add: col loc_col_nth [OF d j])
qed

lemma power_transform_error:
  assumes "numeric_subset n1" and "power_transform lam n1 = Inl e"
  shows "e = NumericError \<and> (\<exists>x \<in> set (numbers n1). x \<le> 0)"
proof -
  from assms(1) have d: "distinct (columns n1)"
    by (simp add: numeric_subset_def csv_table_def)
  from boxcox_loop_error [OF power_transform_length assms(2) [unfolded power_transform_def]]
  obtain col where "col \<in> set (columns n1)" and e: "boxcox lam (loc_col n1 col) = Inl e"
    by blast
  then obtain j where j: "j < length (columns n1)" and col: "col = columns n1 ! j"
    by (auto simp: in_set_conv_nth)
  have num: "\<exists>x. number_of c = Some x" if "c \<in> set (column n1 j)" for c
    using numeric_column [OF assms(1) j that] by blast
  from e have e': "boxcox lam (column n1 j) = Inl e"
    by (simp add: col loc_col_nth [OF d j])
  with boxcox_numeric [of "column n1 j" lam, OF num]
  obtain c x where "e = NumericError" and c: "c \<in> set (column n1 j)"
    and x: "number_of c = Some x" and le: "x \<le> 0"
    by (auto split: if_splits)
  with numeric_column [OF assms(1) j c] show ?thesis by auto
qed

lemma power_transform_nonpositive:
  assumes "numeric_subset n1" and "x \<in> set (numbers n1)" and "x \<le> 0"
  shows "power_transform lam n1 = Inl NumericError"
proof -
  from assms(1) have d: "distinct (columns n1)"
    by (simp add: numeric_subset_def csv_table_def)
  from numbers_in_column [OF assms(1,2)] obtain j c where
    j: "j < length (columns n1)" and c: "c \<in> set (column n1 j)"
    and x: "number_of c = Some x" by blast
  have num: "\<exists>x. number_of c = Some x" if "c \<in> set (column n1 j)" for c
    using numeric_column [OF assms(1) j that] by blast
  from boxcox_numeric [of "column n1 j" lam, OF num] c x assms(3)
  have "boxcox lam (loc_col n1 (columns n1 ! j)) = Inl NumericError"
    by (auto simp: loc_col_nth [OF d j])
  from boxcox_loop_fails [OF nth_mem [OF j] this]
  obtain e where e: "power_transform lam n1 = Inl e"
    unfolding power_transform_def by blast
  with power_transform_error [OF assms(1) e] show ?thesis by simp
qed

lemma add_scalar_columns:
  "add_scalar k f = Inr g \<Longrightarrow>
     columns g = columns f \<and> index g = index f \<and> index_name g = index_name f"
  by (drule add_scalar_Inr) (simp add: index_def comp_def)

lemma add_scalar_column:
  assumes "add_scalar k f = Inr g"
    and "list_all (\<lambda>r. length (snd r) = length (columns f)) (rows f)"
    and "j < length (columns f)"
  shows "column g j = map (shift_cell k) (column f j)"
  using assms(2,3) unfolding add_scalar_Inr [OF assms(1)]
  by (simp add: column_def list_all_iff)

lemma add_scalar_csv_table:
  "add_scalar k f = Inr g \<Longrightarrow> csv_table f \<Longrightarrow> csv_table g"
  by (drule add_scalar_Inr) (simp add: csv_table_def list_all_iff)

lemma is_number_shift_cell: "is_number (shift_cell k c) \<longleftrightarrow> is_number c"
  by (cases c) auto

lemma add_scalar_numeric:
  assumes "numeric_subset f"
  shows "\<exists>g. add_scalar k f = Inr g \<and> numeric_subset g \<and>
             rows g = map (\<lambda>r. (fst r, map (shift_cell k) (snd r))) (rows f)"
proof -
  have num: "is_number c" if "r \<in> set (rows f)" and "c \<in> set (snd r)" for r c
    using assms that by (auto simp: numeric_subset_def list_all_iff)
  let ?g = "f\<lparr>rows := map (\<lambda>r. (fst r, map (shift_cell k) (snd r))) (rows f)\<rparr>"
  have g: "add_scalar k f = Inr ?g"
  proof (rule add_scalar_no_text)
    fix r s
    assume "r \<in> set (rows f)"
    from num [OF this, of "Txt s"] show "Txt s \<notin> set (snd r)" by auto
  qed
  have "csv_table ?g"
    by (rule add_scalar_csv_table [OF g]) (use assms in \<open>simp add: numeric_subset_def\<close>)
  moreover have "list_all (\<lambda>r. list_all is_number (snd r)) (rows ?g)"
    using num by (auto simp: list_all_iff is_number_shift_cell)
  ultimately have "numeric_subset ?g"
    by (simp add: numeric_subset_def)
  with g show ?thesis by auto
qed

text \<open>
  Claim C5. Let \<open>n1\<close> be the numeric subset as handed to the power transform (after
  the shift). The transform works on each column independently: with the exponent
  \<open>\<lambda>\<close> estimated for the column it maps each value \<open>v\<close> to \<open>(v\<^sup>\<lambda> - 1) / \<lambda>\<close> when
  \<open>\<lambda> \<noteq> 0\<close> and to \<open>ln v\<close> when \<open>\<lambda> = 0\<close>. It fails with a NumericError if and only if
  some value of \<open>n1\<close> is non-positive, it fails in no other way, and its failure is the
  result of the whole notebook: nothing catches it and no default value is put in.
\<close>

theorem power_transform_fails_iff_nonpositive:
  assumes "numeric_subset n1"
  shows "(power_transform lam n1 = Inl NumericError \<longleftrightarrow> (\<exists>x \<in> set (numbers n1). x \<le> 0)) \<and>
         (\<forall>e. power_transform lam n1 = Inl e \<longrightarrow> e = NumericError) \<and>
         ((\<forall>x \<in> set (numbers n1). 0 < x) \<longrightarrow>
            (\<exists>tf. power_transform lam n1 = Inr tf \<and>
                  columns tf = map format_TF (columns n1) \<and> index tf = index n1 \<and>
                  (\<forall>j<length (columns n1). \<forall>i<length (rows n1).
                     \<exists>v. number_of (column n1 j ! i) = Some v \<and>
                         column tf j ! i =
                           Num (if lam (column n1 j) = 0 then ln v
                                else (v powr lam (column n1 j) - 1) / lam (column n1 j))))) \<and>
         (\<forall>lib df d n e.
            split_columns df = Inr (d, n) \<and> add_scalar 1 n = Inr n1 \<and>
            power_transform (boxcox_lambda lib) n1 = Inl e \<longrightarrow> notebook lib df = Inl e)"
proof (intro conjI)
  show "power_transform lam n1 = Inl NumericError \<longleftrightarrow> (\<exists>x \<in> set (numbers n1). x \<le> 0)"
    using power_transform_error [OF assms] power_transform_nonpositive [OF assms] by blast
  show "\<forall>e. power_transform lam n1 = Inl e \<longrightarrow> e = NumericError"
    using power_transform_error [OF assms] by blast
  show "(\<forall>x \<in> set (numbers n1). 0 < x) \<longrightarrow>
            (\<exists>tf. power_transform lam n1 = Inr tf \<and>
                  columns tf = map format_TF (columns n1) \<and> index tf = index n1 \<and>
                  (\<forall>j<length (columns n1). \<forall>i<length (rows n1).
                     \<exists>v. number_of (column n1 j ! i) = Some v \<and>
                         column tf j ! i =
                           Num (if lam (column n1 j) = 0 then ln v
                                else (v powr lam (column n1 j) - 1) / lam (column n1 j))))"
  proof
    assume "\<forall>x \<in> set (numbers n1). 0 < x"
    then have "list_all (\<lambda>x. 0 < x) (numbers n1)" by (simp add: list_all_iff)
    from power_transform_positive [OF assms this] obtain tf where
      tf: "power_transform lam n1 = Inr tf" by blast
    from assms have csv: "csv_table n1" by (simp add: numeric_subset_def)
    note P = power_transform_Inr [OF csv tf]
    have cell: "\<exists>v. number_of (column n1 j ! i) = Some v \<and>
                         column tf j ! i =
                           Num (if lam (column n1 j) = 0 then ln v
                                else (v powr lam (column n1 j) - 1) / lam (column n1 j))"
      if j: "j < length (columns n1)" and i: "i < length (rows n1)" for i j
    proof -
      from i have il: "i < length (column n1 j)" by (simp add: column_def)
      then have "column n1 j ! i \<in> set (column n1 j)" by simp
      from numeric_column [OF assms j this] obtain v where
        v: "number_of (column n1 j ! i) = Some v" by blast
      from P j have "column tf j = map (boxcox_value (lam (column n1 j))) (column n1 j)"
        by blast
      with il v show ?thesis by (simp add: boxcox_value_def)
    qed
    from tf P cell show "\<exists>tf. power_transform lam n1 = Inr tf \<and>
                  columns tf = map format_TF (columns n1) \<and> index tf = index n1 \<and>
                  (\<forall>j<length (columns n1). \<forall>i<length (rows n1).
                     \<exists>v. number_of (column n1 j ! i) = Some v \<and>
                         column tf j ! i =
                           Num (if lam (column n1 j) = 0 then ln v
                                else (v powr lam (column n1 j) - 1) / lam (column n1 j)))"
      by blast
  qed
  show "\<forall>lib df d n e.
            split_columns df = Inr (d, n) \<and> add_scalar 1 n = Inr n1 \<and>
            power_transform (boxcox_lambda lib) n1 = Inl e \<longrightarrow> notebook lib df = Inl e"
    by (simp add: notebook_def normalize_def)
qed

lemma numeric_nutr_ex: "numeric_subset nutr_ex"
  by (simp add: numeric_subset_def csv_table_def nutr_ex_def)

lemma numeric_nutr_ex1: "numeric_subset nutr_ex1"
  by (simp add: numeric_subset_def csv_table_def nutr_ex1_def)

lemma numbers_nutr_ex: "numbers nutr_ex = [15.875, 717, 0, 884]"
  by (simp add: numbers_def values_of_def nutr_ex_def)

lemma numbers_nutr_ex1: "numbers nutr_ex1 = [16.875, 718, 1, 885]"
  by (simp add: numbers_def values_of_def nutr_ex1_def)

theorem power_transform_fails_iff_nonpositive_witness:
  "numeric_subset nutr_ex \<and> numbers nutr_ex = [15.875, 717, 0, 884] \<and>
   power_transform (\<lambda>xs. 0) nutr_ex = Inl NumericError \<and>
   numeric_subset nutr_ex1 \<and> numbers nutr_ex1 = [16.875, 718, 1, 885] \<and>
   (\<exists>tf. power_transform (\<lambda>xs. 0) nutr_ex1 = Inr tf \<and>
      columns tf = [Name ''Water_(g)_TF'', Name ''Energ_Kcal_TF''] \<and>
      column tf 0 ! 0 = Num (ln 16.875) \<and> column tf 1 ! 0 = Num (ln 718))"
proof -
  note a = power_transform_fails_iff_nonpositive [OF numeric_nutr_ex, of "\<lambda>xs. 0"]
  note b = power_transform_fails_iff_nonpositive [OF numeric_nutr_ex1, of "\<lambda>xs. 0"]
  from a have fails: "power_transform (\<lambda>xs. 0) nutr_ex = Inl NumericError"
    by (simp add: numbers_nutr_ex)
  from b obtain tf where tf: "power_transform (\<lambda>xs. 0) nutr_ex1 = Inr tf"
    and c: "columns tf = map format_TF (columns nutr_ex1)"
    and v: "\<forall>j<length (columns nutr_ex1). \<forall>i<length (rows nutr_ex1).
              \<exists>v. number_of (column nutr_ex1 j ! i) = Some v \<and> column tf j ! i = Num (ln v)"
    by (auto simp: numbers_nutr_ex1)
  from c have c': "columns tf = [Name ''Water_(g)_TF'', Name ''Energ_Kcal_TF'']"
    by (simp add: nutr_ex1_def)
  from v have "\<exists>v. number_of (column nutr_ex1 0 ! 0) = Some v \<and> column tf 0 ! 0 = Num (ln v)"
    by (simp add: nutr_ex1_def)
  then obtain v where v1: "number_of (column nutr_ex1 0 ! 0) = Some v"
    and v2: "column tf 0 ! 0 = Num (ln v)" by blast
  have "number_of (column nutr_ex1 0 ! 0) = Some 16.875"
    by (simp add: column_def nutr_ex1_def)
  with v1 have "v = 16.875" by simp
  with v2 have w0: "column tf 0 ! 0 = Num (ln 16.875)" by simp
  from v have "\<exists>v. number_of (column nutr_ex1 1 ! 0) = Some v \<and> column tf 1 ! 0 = Num (ln v)"
    by (simp add: nutr_ex1_def)
  then obtain w where w1: "number_of (column nutr_ex1 1 ! 0) = Some w"
    and w2: "column tf 1 ! 0 = Num (ln w)" by blast
  have "number_of (column nutr_ex1 1 ! 0) = Some 718"
    by (simp add: column_def nutr_ex1_def)
  with w1 have "w = 718" by simp
  with w2 have "column tf 1 ! 0 = Num (ln 718)" by simp
  with numeric_nutr_ex numbers_nutr_ex fails numeric_nutr_ex1 numbers_nutr_ex1 tf c' w0
  show ?thesis by blast
qed

section \<open>Positivity after the shift\<close>

lemma round64_examples:
  "round64 (135 / 8) = 135 / 8" "round64 1 = 1" "round64 3 = 3"
  using round64_fraction [of 135 3] round64_fraction [of 1 0] round64_fraction [of 3 0]
  by simp_all

lemma float64_examples:
  "float64 0" "float64 (127 / 8)" "float64 2" "float64 (- 1)"
  using float64_fraction [of 0 0] float64_fraction [of 127 3] float64_fraction [of 2 0]
    float64_fraction [of "- 1" 0]
  by simp_all



lemma add_scalar_nutr_ex: "add_scalar 1 nutr_ex = Inr nutr_ex1"
  by (simp add: add_scalar_def nutr_ex_def nutr_ex1_def wrap64_def round64_examples)




lemma shift_positive:
  assumes "numeric_subset nutr" and "machine_frame nutr"
    and "list_all (\<lambda>x. - 1 < x) (numbers nutr)"
    and "list_all (\<lambda>r. Int64 (2 ^ 63 - 1) \<notin> set (snd r)) (rows nutr)"
  shows "\<exists>n1. add_scalar 1 nutr = Inr n1 \<and> numeric_subset n1 \<and>
           columns n1 = columns nutr \<and> list_all (\<lambda>x. 0 < x) (numbers n1)"
proof -
  from add_scalar_numeric [OF assms(1), of 1] obtain n1 where
    n1: "add_scalar 1 nutr = Inr n1" and num: "numeric_subset n1"
    and r: "rows n1 = map (\<lambda>r. (fst r, map (shift_cell 1) (snd r))) (rows nutr)" by blast
  have "0 < y" if "y \<in> set (numbers n1)" for y
  proof -
    from that obtain row c where row: "row \<in> set (rows nutr)" and c: "c \<in> set (snd row)"
      and y: "number_of (shift_cell 1 c) = Some y"
      unfolding set_numbers r by auto
    from assms(1) row c obtain x where x: "number_of c = Some x"
      by (auto simp: numeric_subset_def list_all_iff is_number_iff)
    with row c have "x \<in> set (numbers nutr)" by (auto simp: set_numbers)
    with assms(3) have gt: "- 1 < x" by (simp add: list_all_iff)
    from assms(2) row c have m: "machine_cell c"
      by (auto simp: machine_frame_def list_all_iff)
    from assms(4) row c have "c \<noteq> Int64 (2 ^ 63 - 1)"
      by (auto simp: list_all_iff)
    from shift_cell_positive [OF m x gt this] y show ?thesis by simp
  qed
  then have "list_all (\<lambda>x. 0 < x) (numbers n1)" by (simp add: list_all_iff)
  with n1 num add_scalar_columns [OF n1] show ?thesis by auto
qed



section \<open>Column order\<close>

lemma array_column_rows: "array_column (map snd (rows f)) j = column f j"
  by (simp add: array_column_def column_def comp_def)

lemma fit_transform_scaler_column:
  "j < n \<Longrightarrow> array_column (fit_transform_scaler sc n m) j
              = map (sc (array_column m j)) (array_column m j)"
  by (simp add: fit_transform_scaler_def array_column_def comp_def)

lemma loading_series_Inr:
  assumes "loading_series comps i f = Inr s"
  shows "i < length comps \<and> i < 5 \<and> length (comps ! i) = length (columns f) \<and>
         s = zip (columns f) (comps ! i)"
  using assms
  by (auto simp: loading_series_def get_row_def series_def split: sum.splits if_splits)

text \<open>
  Claim C9. The order of the columns of the numeric subset is kept through the shift, the
  power transform and the standard scaling: column \<open>j\<close> of the array handed to the PCA
  is made from column \<open>j\<close> of the numeric subset alone, and a loading vector indexed by
  the column names of the numeric subset pairs its entry \<open>j\<close> with the name of column
  \<open>j\<close>.
\<close>

theorem column_order_preserved:
  assumes "csv_table nutr" and "normalize lib nutr = Inr (n1, tf, m)"
  shows "columns n1 = columns nutr \<and>
         columns tf = map format_TF (columns nutr) \<and>
         (\<forall>j<length (columns nutr).
            column n1 j = map (shift_cell 1) (column nutr j) \<and>
            column tf j = map (boxcox_value (boxcox_lambda lib (column n1 j))) (column n1 j) \<and>
            array_column m j = map (scaler_cell lib (column tf j)) (column tf j)) \<and>
         (\<forall>comps i s. loading_series comps i n1 = Inr s \<longrightarrow>
            map fst s = columns nutr \<and>
            (\<forall>j<length (columns nutr). s ! j = (columns nutr ! j, comps ! i ! j)))"
proof -
  from assms(2) have n1: "add_scalar 1 nutr = Inr n1"
    and tf: "power_transform (boxcox_lambda lib) n1 = Inr tf"
    and m: "m = fit_transform_scaler (scaler_cell lib) (length (columns tf)) (map snd (rows tf))"
    by (auto simp: normalize_def split: sum.splits)
  from add_scalar_columns [OF n1] have c1: "columns n1 = columns nutr" by simp
  from assms(1) have rect: "list_all (\<lambda>r. length (snd r) = length (columns nutr)) (rows nutr)"
    by (simp add: csv_table_def)
  note P = power_transform_Inr [OF add_scalar_csv_table [OF n1 assms(1)] tf]
  from P c1 have ctf: "columns tf = map format_TF (columns nutr)" by simp
  have cols: "column n1 j = map (shift_cell 1) (column nutr j) \<and>
            column tf j = map (boxcox_value (boxcox_lambda lib (column n1 j))) (column n1 j) \<and>
            array_column m j = map (scaler_cell lib (column tf j)) (column tf j)"
    if j: "j < length (columns nutr)" for j
  proof (intro conjI)
    show "column n1 j = map (shift_cell 1) (column nutr j)"
      by (rule add_scalar_column [OF n1 rect j])
    show "column tf j = map (boxcox_value (boxcox_lambda lib (column n1 j))) (column n1 j)"
      using P j c1 by simp
    show "array_column m j = map (scaler_cell lib (column tf j)) (column tf j)"
      using j by (simp add: m ctf fit_transform_scaler_column array_column_rows)
  qed
  have ser: "map fst s = columns nutr \<and>
            (\<forall>j<length (columns nutr). s ! j = (columns nutr ! j, comps ! i ! j))"
    if "loading_series comps i n1 = Inr s" for comps i s
    using loading_series_Inr [OF that] by (simp add: c1)
  from c1 ctf cols ser show ?thesis by blast
qed

lemma normalize_nutr_ex: "\<exists>tf m. normalize lib_ex nutr_ex = Inr (nutr_ex1, tf, m)"
proof -
  have p: "list_all (\<lambda>x. 0 < x) (numbers nutr_ex1)"
    by (simp add: numbers_nutr_ex1)
  from power_transform_positive [OF numeric_nutr_ex1 p] obtain tf where
    "power_transform (boxcox_lambda lib_ex) nutr_ex1 = Inr tf" by blast
  with add_scalar_nutr_ex show ?thesis by (simp add: normalize_def)
qed

theorem column_order_preserved_witness:
  "csv_table nutr_ex \<and>
   (\<exists>n1 tf m. normalize lib_ex nutr_ex = Inr (n1, tf, m) \<and>
      columns tf = [Name ''Water_(g)_TF'', Name ''Energ_Kcal_TF''] \<and>
      column n1 1 = [Int64 718, Int64 885] \<and>
      column tf 1 = [Num (ln 718), Num (ln 885)] \<and>
      array_column m 1 = [Num (ln 718), Num (ln 885)] \<and>
      loading_series [[Num 0.3, Num 0.7]] 0 n1
        = Inr [(Name ''Water_(g)'', Num 0.3), (Name ''Energ_Kcal'', Num 0.7)])"
proof -
  have csv: "csv_table nutr_ex"
    by (simp add: csv_table_def nutr_ex_def)
  from normalize_nutr_ex obtain tf m where
    nz: "normalize lib_ex nutr_ex = Inr (nutr_ex1, tf, m)" by blast
  note t = column_order_preserved [OF csv nz]
  from t have c: "columns tf = [Name ''Water_(g)_TF'', Name ''Energ_Kcal_TF'']"
    by (simp add: nutr_ex_def)
  have j: "1 < length (columns nutr_ex)"
    by (simp add: nutr_ex_def)
  from t j have n1: "column nutr_ex1 1 = map (shift_cell 1) (column nutr_ex 1)"
    and tf1: "column tf 1
      = map (boxcox_value (boxcox_lambda lib_ex (column nutr_ex1 1))) (column nutr_ex1 1)"
    and m1: "array_column m 1 = map (scaler_cell lib_ex (column tf 1)) (column tf 1)"
    by blast+
  from n1 have n1': "column nutr_ex1 1 = [Int64 718, Int64 885]"
    by (simp add: column_def nutr_ex_def wrap64_def)
  from tf1 have tf1': "column tf 1 = [Num (ln 718), Num (ln 885)]"
    by (simp add: lib_ex_def column_def nutr_ex1_def boxcox_value_def)
  from m1 tf1' have m1': "array_column m 1 = [Num (ln 718), Num (ln 885)]"
    by (simp add: lib_ex_def)
  have s: "loading_series [[Num 0.3, Num 0.7]] 0 nutr_ex1
        = Inr [(Name ''Water_(g)'', Num 0.3), (Name ''Energ_Kcal'', Num 0.7)]"
    by (simp add: loading_series_def get_row_def series_def nutr_ex1_def)
  from csv nz c n1' tf1' m1' s show ?thesis by blast
qed

section \<open>Standardization\<close>

lemma pstd_Nil: "pstd [] = 0"
  by (simp add: pstd_def mean_def)

lemma sum_list_divide:
  "sum_list (map (\<lambda>x. f x / c) xs) = sum_list (map f xs) / (c::real)"
  by (induction xs) (simp_all add: add_divide_distrib)

lemma sum_list_centred: "xs \<noteq> [] \<Longrightarrow> sum_list (map (\<lambda>x. x - mean xs) xs) = 0"
  by (simp add: sum_list_subtractf sum_list_triv mean_def)

lemma mean_scaled:
  assumes "xs \<noteq> []"
  shows "mean (map (\<lambda>x. (x - mean xs) / s) xs) = 0"
proof -
  have "sum_list (map (\<lambda>x. (x - mean xs) / s) xs) = sum_list (map (\<lambda>x. x - mean xs) xs) / s"
    by (rule sum_list_divide)
  then show ?thesis
    using sum_list_centred [OF assms] by (simp add: mean_def)
qed

lemma mean_squares_nonneg: "0 \<le> mean (map (\<lambda>x. (x - c)\<^sup>2) xs)"
proof -
  have "0 \<le> sum_list (map (\<lambda>x. (x - c)\<^sup>2) xs)"
    by (rule sum_list_nonneg) auto
  then show ?thesis by (simp add: mean_def)
qed

lemma pstd_scaled:
  assumes "pstd xs \<noteq> 0"
  shows "pstd (map (\<lambda>x. (x - mean xs) / pstd xs) xs) = 1"
proof -
  from assms have ne: "xs \<noteq> []" by (auto simp: pstd_Nil)
  let ?s = "pstd xs"
  let ?v = "mean (map (\<lambda>x. (x - mean xs)\<^sup>2) xs)"
  have s2: "?s\<^sup>2 = ?v"
    by (simp add: pstd_def mean_squares_nonneg)
  have "sum_list (map (\<lambda>x. ((x - mean xs) / ?s)\<^sup>2) xs)
      = sum_list (map (\<lambda>x. (x - mean xs)\<^sup>2) xs) / ?s\<^sup>2"
    by (simp add: power_divide sum_list_divide)
  then have "mean (map (\<lambda>x. ((x - mean xs) / ?s)\<^sup>2) xs) = ?v / ?s\<^sup>2"
    by (simp add: mean_def)
  also have "\<dots> = 1" using assms by (simp add: s2 [symmetric])
  finally have "mean (map (\<lambda>x. ((x - mean xs) / ?s)\<^sup>2) xs) = 1" .
  then show ?thesis
    by (simp add: pstd_def mean_scaled [OF ne] comp_def)
qed

lemma values_of_Cons:
  "values_of [] = []"
  "values_of (c # cs) = (case number_of c of Some x \<Rightarrow> [x] | None \<Rightarrow> []) @ values_of cs"
  by (simp_all add: values_of_def)

lemma values_of_standard_cell:
  "values_of (map (standard_cell col) cs)
     = map (\<lambda>x. (x - mean (values_of col)) / pstd (values_of col)) (values_of cs)"
  by (induction cs) (auto simp: values_of_Cons standard_cell_def split: option.splits)

lemma standard_scaler_column:
  assumes "j < n"
  shows "values_of (array_column (fit_transform_scaler standard_cell n m) j)
     = map (\<lambda>x. (x - mean (values_of (array_column m j))) / pstd (values_of (array_column m j)))
         (values_of (array_column m j))"
  by (simp add: fit_transform_scaler_column [OF assms] values_of_standard_cell)

text \<open>
  The array of one constant column, two rows of the value 5: its deviation is 0, the
  step fails with a NumericError, and no divisor makes the deviation of the centred
  column 1, since the centred column is 0 throughout.
\<close>

theorem standard_scaler_constant_counterexample:
  "numeric_array 1 [[Num 5], [Num 5]] \<and>
   pstd (values_of (array_column [[Num 5], [Num 5]] 0)) = 0 \<and>
   standard_scaler 1 [[Num 5], [Num 5]] = Inl NumericError \<and>
   (\<forall>s. pstd (map (\<lambda>x. (x - mean [5, 5]) / s) [5, 5]) = 0)"
proof -
  have v: "values_of (array_column [[Num 5], [Num 5]] 0) = [5, 5]"
    by (simp add: array_column_def values_of_def)
  have p: "pstd [5, 5] = 0"
    by (simp add: pstd_def mean_def)
  have "standard_scaler 1 [[Num 5], [Num 5]] = Inl NumericError"
    by (simp add: standard_scaler_def v p)
  moreover have "pstd (map (\<lambda>x. (x - mean [5, 5]) / s) [5, 5]) = 0" for s :: real
    by (simp add: pstd_def mean_def)
  moreover have "numeric_array 1 [[Num 5], [Num 5]]"
    by (simp add: numeric_array_def)
  ultimately show ?thesis using v p by simp
qed

text \<open>
  Claim C1, amended. For every numeric input array in which every column has a non-zero
  standard deviation, the standardization step gives an array of which every column has
  mean 0 and standard deviation 1, the standard deviation being the population
  statistic. (The values are exact reals here, so 0 and 1 are met exactly.)
\<close>

theorem standard_scaler_mean_std:
  assumes "numeric_array n m"
    and "\<forall>j<n. pstd (values_of (array_column m j)) \<noteq> 0"
  shows "\<exists>m'. standard_scaler n m = Inr m' \<and>
           m' = fit_transform_scaler standard_cell n m \<and>
           (\<forall>j<n. mean (values_of (array_column m' j)) = 0 \<and>
                   pstd (values_of (array_column m' j)) = 1)"
proof -
  have ok: "values_of (array_column m j) \<noteq> [] \<and> pstd (values_of (array_column m j)) \<noteq> 0"
    if "j < n" for j
    using assms(2) that by (auto simp: pstd_Nil)
  then have "\<not> list_ex (\<lambda>j. values_of (array_column m j) = [] \<or>
                            pstd (values_of (array_column m j)) = 0) [0..<n]"
    by (auto simp: list_ex_iff)
  then have r: "standard_scaler n m = Inr (fit_transform_scaler standard_cell n m)"
    by (simp add: standard_scaler_def)
  have "mean (values_of (array_column (fit_transform_scaler standard_cell n m) j)) = 0 \<and>
        pstd (values_of (array_column (fit_transform_scaler standard_cell n m) j)) = 1"
    if j: "j < n" for j
    using ok [OF j] by (simp add: standard_scaler_column [OF j] mean_scaled pstd_scaled)
  with r show ?thesis by blast
qed

theorem standard_scaler_mean_std_witness:
  "numeric_array 2 [[Num 1, Num 2], [Num 3, Num 6]] \<and>
   pstd (values_of (array_column [[Num 1, Num 2], [Num 3, Num 6]] 0)) = 1 \<and>
   pstd (values_of (array_column [[Num 1, Num 2], [Num 3, Num 6]] 1)) = 2 \<and>
   standard_scaler 2 [[Num 1, Num 2], [Num 3, Num 6]]
     = Inr [[Num (- 1), Num (- 1)], [Num 1, Num 1]] \<and>
   mean [- 1, 1] = 0 \<and> pstd [- 1, 1] = 1"
proof -
  let ?m = "[[Num 1, Num 2], [Num 3, Num 6]]"
  have a: "numeric_array 2 ?m"
    by (simp add: numeric_array_def)
  have v0: "values_of (array_column ?m 0) = [1, 3]"
    and v1: "values_of (array_column ?m 1) = [2, 6]"
    by (simp_all add: array_column_def values_of_def)
  have m0: "mean [1, 3] = 2" and m1: "mean [2, 6] = 4"
    by (simp_all add: mean_def)
  have p0: "pstd [1, 3] = 1" and p1: "pstd [2, 6] = 2"
    by (simp_all add: pstd_def m0 m1) (simp_all add: mean_def)
  have nz: "\<forall>j<2. pstd (values_of (array_column ?m j)) \<noteq> 0"
    using v0 v1 p0 p1 by (simp add: less_Suc_eq numeral_2_eq_2)
  from standard_scaler_mean_std [OF a nz] obtain m' where
    r: "standard_scaler 2 ?m = Inr m'" and m': "m' = fit_transform_scaler standard_cell 2 ?m"
    and s: "\<forall>j<2. mean (values_of (array_column m' j)) = 0 \<and>
                  pstd (values_of (array_column m' j)) = 1"
    by blast
  have e: "fit_transform_scaler standard_cell 2 ?m = [[Num (- 1), Num (- 1)], [Num 1, Num 1]]"
    by (simp add: fit_transform_scaler_def standard_cell_def array_column_def values_of_def
        numeral_2_eq_2 m0 m1 p0 p1)
  from s have "mean (values_of (array_column m' 0)) = 0 \<and> pstd (values_of (array_column m' 0)) = 1"
    by simp
  then have "mean [- 1, 1] = 0 \<and> pstd [- 1, 1] = 1"
    by (simp add: m' e array_column_def values_of_def)
  with a v0 v1 p0 p1 r m' e show ?thesis by simp
qed

section \<open>Row identifiers\<close>

lemma select_pos:
  assumes "distinct xs" and "list_all (\<lambda>j. j < length xs) js" and "k \<in> set (map (nth xs) js)"
  shows "map (nth cs) js ! pos_of k (map (nth xs) js) = cs ! pos_of k xs"
proof -
  let ?q = "pos_of k (map (nth xs) js)"
  from pos_of_less [OF assms(3)] have q: "?q < length js" by simp
  from nth_pos_of [OF assms(3)] q have "xs ! (js ! ?q) = k" by simp
  moreover from assms(2) q have "js ! ?q < length xs" by (simp add: list_all_length)
  ultimately have "pos_of k xs = js ! ?q"
    using pos_of_nth [OF assms(1), of "js ! ?q"] by simp
  with q show ?thesis by simp
qed

lemma pos_of_take: "k \<in> set (take m xs) \<Longrightarrow> pos_of k (take m xs) = pos_of k xs"
  unfolding pos_of_def
  by (induction xs arbitrary: m) (auto simp: take_Cons split: nat.splits)

lemma drop_cols_Inr_rows:
  assumes "drop_cols ls f = Inr g"
  shows "\<exists>keep. list_all (\<lambda>j. j < length (columns f)) keep \<and>
           columns g = map (nth (columns f)) keep \<and>
           rows g = map (\<lambda>r. (fst r, map (nth (snd r)) keep)) (rows f)"
proof -
  let ?keep = "filter (\<lambda>j. columns f ! j \<notin> set ls) [0..<length (columns f)]"
  have "list_all (\<lambda>j. j < length (columns f)) ?keep"
    by (simp add: list_all_iff)
  with assms show ?thesis
    by (auto simp: drop_cols_def Let_def split: if_splits)
qed

lemma drop_cols_index: "drop_cols ls f = Inr g \<Longrightarrow> index g = index f"
  by (auto simp: drop_cols_def Let_def index_def comp_def split: if_splits)

lemma rename_cols_index: "index (rename_cols m f) = index f"
  by (simp add: rename_cols_def index_def)

lemma data_frame_index: "data_frame w a d = Inr p \<Longrightarrow> index p = index d"
  by (auto simp: data_frame_def index_def split: if_splits)

lemma join_Inr:
  "join l r = Inr g \<Longrightarrow>
     rows g = concat (map (\<lambda>x.
                  (case filter (\<lambda>y. fst y = fst x) (rows r) of
                     [] \<Rightarrow> [(fst x, snd x @ replicate (length (columns r)) NaN)]
                   | ms \<Rightarrow> map (\<lambda>y. (fst x, snd x @ snd y)) ms)) (rows l))"
  by (auto simp: join_def split: if_splits)

lemma join_index: 
  assumes "join l r = Inr g"
  shows "set (index g) = set (index l)"
proof -
  have "fst ` set (case filter (\<lambda>y. fst y = fst x) (rows r) of
                     [] \<Rightarrow> [(fst x, snd x @ replicate (length (columns r)) NaN)]
                   | ms \<Rightarrow> map (\<lambda>y. (fst x, snd x @ snd y)) ms) = {fst x}" for x
    by (cases "filter (\<lambda>y. fst y = fst x) (rows r)") (auto simp: image_iff)
  then show ?thesis
    unfolding index_def join_Inr [OF assms] by (auto simp: image_UN)
qed

lemma join_matched:
  assumes "join l r = Inr g" and "set (index l) \<subseteq> set (index r)" and "row \<in> set (rows g)"
  shows "\<exists>x \<in> set (rows l). \<exists>y \<in> set (rows r). fst y = fst x \<and> row = (fst x, snd x @ snd y)"
proof -
  from assms(3) obtain x where x: "x \<in> set (rows l)"
    and row: "row \<in> set (case filter (\<lambda>y. fst y = fst x) (rows r) of
                     [] \<Rightarrow> [(fst x, snd x @ replicate (length (columns r)) NaN)]
                   | ms \<Rightarrow> map (\<lambda>y. (fst x, snd x @ snd y)) ms)"
    unfolding join_Inr [OF assms(1)] by auto
  from x assms(2) obtain y where y: "y \<in> set (rows r)" and "fst y = fst x"
    by (force simp: index_def)
  then have "y \<in> set (filter (\<lambda>y. fst y = fst x) (rows r))" by simp
  then have "filter (\<lambda>y. fst y = fst x) (rows r) \<noteq> []" by force
  with row have "row \<in> set (map (\<lambda>y. (fst x, snd x @ snd y)) (filter (\<lambda>y. fst y = fst x) (rows r)))"
    by (cases "filter (\<lambda>y. fst y = fst x) (rows r)") simp_all
  with x show ?thesis by auto
qed

lemma make_pca_df_index:
  assumes "make_pca_df pca d = Inr p"
  shows "set (index p) = set (index d)"
proof -
  from assms obtain p0 p1 p2 where
    "data_frame (min 5 (ncols pca)) (map (take 5) pca) d = Inr p0"
    and "join p0 d = Inr p1"
    and "drop_cols [FoodGroup, Name ''GmWt_Desc1'', Name ''GmWt_2'',
                                Name ''GmWt_Desc2'', Name ''Refuse_Pct'', Shrt_Desc] p1 = Inr p2"
    and "p = rename_cols [(Pos 0, Name ''c1''), (Pos 1, Name ''c2''),
                                      (Pos 2, Name ''c3''), (Pos 3, Name ''c4''),
                                      (Pos 4, Name ''c5'')] p2"
    by (auto simp: make_pca_df_def split: sum.splits)
  then have "index p = index p2" and "index p2 = index p1"
    and "set (index p1) = set (index p0)" and "index p0 = index d"
    by (simp_all add: rename_cols_index drop_cols_index join_index data_frame_index)
  then show ?thesis by simp
qed

lemma make_clustered_Inr:
  assumes "make_clustered pca labels d = Inr cl"
  shows "set (index cl) = set (index d) \<and>
         (\<forall>row \<in> set (rows cl). \<exists>y \<in> set (rows d). \<exists>cs. fst y = fst row \<and> snd row = cs @ snd y)"
proof -
  from assms obtain p0 p1 where
    p0: "data_frame (min 5 (ncols pca)) (map (take 5) pca) d = Inr p0"
    and p1: "set_column (Name ''Cluster'') labels p0 = Inr p1"
    and cl: "join p1 d = Inr cl"
    by (auto simp: make_clustered_def split: sum.splits)
  have i: "index p1 = index d"
    using data_frame_index [OF p0] set_column_index [OF p1] by simp
  then have sub: "set (index p1) \<subseteq> set (index d)" by simp
  have "\<exists>y \<in> set (rows d). \<exists>cs. fst y = fst row \<and> snd row = cs @ snd y"
    if "row \<in> set (rows cl)" for row
  proof -
    from join_matched [OF cl sub that] obtain x y where
      "y \<in> set (rows d)" and "fst y = fst x" and "row = (fst x, snd x @ snd y)"
      by blast
    then show ?thesis by (intro bexI [of _ y] exI [of _ "snd x"]) simp_all
  qed
  with join_index [OF cl] i show ?thesis by auto
qed

lemma make_desc_df_index:
  assumes "distinct (columns df)" and "make_desc_df df = Inr d"
  shows "index d = map (\<lambda>r. snd r ! pos_of NDB_No (columns df)) (rows df)"
proof -
  from assms(2) obtain g where g: "iloc_cols ([0, 1, 2] @ [50..<54]) df = Inr g"
    and d: "set_index NDB_No g = Inr d"
    by (auto simp: make_desc_df_def split: sum.splits)
  let ?js = "[0, 1, 2] @ [50..<54]"
  note G = iloc_cols_Inr [OF g]
  note D = set_index_Inr [OF d]
  from D G have k: "NDB_No \<in> set (map (nth (columns df)) ?js)" by simp
  from G have lt: "list_all (\<lambda>j. j < length (columns df)) ?js" by blast
  have "index d = map (\<lambda>r. map (nth (snd r)) ?js ! pos_of NDB_No (map (nth (columns df)) ?js)) (rows df)"
    using D G by (simp add: index_def comp_def)
  also have "\<dots> = map (\<lambda>r. snd r ! pos_of NDB_No (columns df)) (rows df)"
    by (simp only: select_pos [OF assms(1) lt k])
  finally show ?thesis .
qed

lemma make_nutr_df_index:
  assumes "csv_table df" and "make_nutr_df df = Inr n"
  shows "index n = map (\<lambda>r. snd r ! pos_of NDB_No (columns df)) (rows df)"
proof -
  from assms(2) obtain g where g: "drop_cols [FoodGroup, Shrt_Desc] (iloc_cols_but_last 5 df) = Inr g"
    and n: "set_index NDB_No g = Inr n"
    by (auto simp: make_nutr_df_def split: sum.splits)
  let ?m = "length (columns df) - 5"
  let ?cols = "take ?m (columns df)"
  from assms(1) have dist: "distinct (columns df)"
    and rect: "\<And>r. r \<in> set (rows df) \<Longrightarrow> length (snd r) = length (columns df)"
    by (simp_all add: csv_table_def list_all_iff)
  from drop_cols_Inr_rows [OF g] obtain keep where
    lt: "list_all (\<lambda>j. j < length ?cols) keep"
    and cg: "columns g = map (nth ?cols) keep"
    and rg: "rows g = map (\<lambda>r. (fst r, map (nth (take (length (snd r) - 5) (snd r))) keep)) (rows df)"
    by (auto simp: iloc_cols_but_last_def comp_def)
  note N = set_index_Inr [OF n]
  from N cg have k: "NDB_No \<in> set (map (nth ?cols) keep)" by simp
  then obtain j where j: "j \<in> set keep" and e: "NDB_No = ?cols ! j" by auto
  from lt j have "j < length ?cols" by (simp add: list_all_iff)
  then have "?cols ! j \<in> set ?cols" by (rule nth_mem)
  with e have k': "NDB_No \<in> set ?cols" by simp
  have d': "distinct ?cols" using dist by simp
  have p: "pos_of NDB_No ?cols = pos_of NDB_No (columns df)"
    by (rule pos_of_take [OF k'])
  have cell: "map (nth (take (length (snd r) - 5) (snd r))) keep ! pos_of NDB_No (map (nth ?cols) keep)
      = snd r ! pos_of NDB_No (columns df)" if r: "r \<in> set (rows df)" for r
  proof -
    have "map (nth (take (length (snd r) - 5) (snd r))) keep ! pos_of NDB_No (map (nth ?cols) keep)
        = take (length (snd r) - 5) (snd r) ! pos_of NDB_No ?cols"
      by (rule select_pos [OF d' lt k])
    moreover have "pos_of NDB_No ?cols < length (snd r) - 5"
      using pos_of_less [OF k'] rect [OF r] by simp
    ultimately show ?thesis by (simp add: p)
  qed
  have "index n = map (\<lambda>r. map (nth (take (length (snd r) - 5) (snd r))) keep
                          ! pos_of NDB_No (map (nth ?cols) keep)) (rows df)"
    using N cg rg by (simp add: index_def comp_def)
  also have "\<dots> = map (\<lambda>r. snd r ! pos_of NDB_No (columns df)) (rows df)"
    by (rule map_cong) (simp_all add: cell)
  finally show ?thesis .
qed

lemma split_columns_index:
  assumes "csv_table df" and "split_columns df = Inr (d, n)"
  shows "index d = map (\<lambda>r. snd r ! pos_of NDB_No (columns df)) (rows df) \<and> index n = index d"
proof -
  from assms(2) have d: "make_desc_df df = Inr d" and n: "make_nutr_df df = Inr n"
    by (auto simp: split_columns_def split: sum.splits)
  from assms(1) have "distinct (columns df)" by (simp add: csv_table_def)
  from make_desc_df_index [OF this d] make_nutr_df_index [OF assms(1) n]
  show ?thesis by simp
qed

lemma notebook_Inr:
  assumes "notebook lib df = Inr out"
  shows "\<exists>n tf. split_columns df = Inr (desc_df out, n) \<and>
           normalize lib n = Inr (nutr_df out, tf, nutr_df_TF out) \<and>
           make_pca_df (pca_fit_transform lib (nutr_df_TF out)) (desc_df out) = Inr (pca_df out) \<and>
           make_clustered (pca_fit_transform lib (nutr_df_TF out))
             (kmeans_labels lib (map (take 5) (pca_fit_transform lib (nutr_df_TF out))))
             (desc_df out) = Inr (clustered out)"
  using assms by (auto simp: notebook_def split: sum.splits prod.splits)

text \<open>
  Claim C4. For a cleaned table the descriptive subset, the numeric subset and the frame
  of projected coordinates carry the same row identifiers, the values of \<open>NDB_No\<close> in
  the rows that cleaning kept, in the same order; the joined frames have the same set of
  identifiers. Every identifier of the clustered output is that of a row without a
  missing value, and every row of the output ends with the cells of a descriptive row
  of the same identifier: no row is filled in with missing values.
\<close>

theorem identifier_sets_equal:
  assumes "csv_table t" and "notebook lib (dropna t) = Inr out"
  shows "index (desc_df out) = map (\<lambda>r. snd r ! pos_of NDB_No (columns t)) (rows (dropna t)) \<and>
         index (nutr_df out) = index (desc_df out) \<and>
         (\<forall>w a p. data_frame w a (desc_df out) = Inr p \<longrightarrow> index p = index (desc_df out)) \<and>
         set (index (pca_df out)) = set (index (desc_df out)) \<and>
         set (index (clustered out)) = set (index (desc_df out)) \<and>
         (\<forall>k \<in> set (index (clustered out)).
            \<exists>r \<in> set (rows t). NaN \<notin> set (snd r) \<and> k = snd r ! pos_of NDB_No (columns t)) \<and>
         (\<forall>row \<in> set (rows (clustered out)).
            \<exists>y \<in> set (rows (desc_df out)). \<exists>cs. fst y = fst row \<and> snd row = cs @ snd y)"
proof -
  from notebook_Inr [OF assms(2)] obtain n tf where
    s: "split_columns (dropna t) = Inr (desc_df out, n)"
    and nz: "normalize lib n = Inr (nutr_df out, tf, nutr_df_TF out)"
    and p: "make_pca_df (pca_fit_transform lib (nutr_df_TF out)) (desc_df out) = Inr (pca_df out)"
    and c: "make_clustered (pca_fit_transform lib (nutr_df_TF out))
             (kmeans_labels lib (map (take 5) (pca_fit_transform lib (nutr_df_TF out))))
             (desc_df out) = Inr (clustered out)"
    by blast
  from split_columns_index [OF csv_table_dropna [OF assms(1)] s]
  have d: "index (desc_df out) = map (\<lambda>r. snd r ! pos_of NDB_No (columns t)) (rows (dropna t))"
    and n: "index n = index (desc_df out)"
    by (simp_all add: columns_dropna)
  from nz obtain "add_scalar 1 n = Inr (nutr_df out)"
    by (auto simp: normalize_def split: sum.splits)
  from add_scalar_columns [OF this] n have n1: "index (nutr_df out) = index (desc_df out)"
    by simp
  note C = make_clustered_Inr [OF c]
  have kept: "\<exists>r \<in> set (rows t). NaN \<notin> set (snd r) \<and> k = snd r ! pos_of NDB_No (columns t)"
    if "k \<in> set (index (clustered out))" for k
  proof -
    from that C have "k \<in> set (index (desc_df out))" by simp
    then show ?thesis unfolding d by (auto simp: rows_dropna)
  qed
  from d n1 make_pca_df_index [OF p] C kept data_frame_index show ?thesis
    by blast
qed

lemma numeric_nutr54: "numeric_subset nutr54"
  by (simp add: numeric_subset_def csv_table_def nutr54_def nutrient_names_def)

lemma numbers_nutr54: "list_all (\<lambda>x. - 1 < x) (numbers nutr54)"
  by (simp add: numbers_def values_of_def nutr54_def)

lemma machine_nutr54: "machine_frame nutr54"
  by (simp add: machine_frame_def nutr54_def float64_examples)

lemma no_max_nutr54: "list_all (\<lambda>r. Int64 (2 ^ 63 - 1) \<notin> set (snd r)) (rows nutr54)"
  by (simp add: nutr54_def)

lemma normalize_nutr54:
  "\<exists>n1 tf m. normalize lib_ex nutr54 = Inr (n1, tf, m) \<and> columns n1 = nutrient_names"
proof -
  from shift_positive [OF numeric_nutr54 machine_nutr54 numbers_nutr54 no_max_nutr54]
  obtain n1 where n1: "add_scalar 1 nutr54 = Inr n1" and num: "numeric_subset n1"
    and c: "columns n1 = columns nutr54" and pos: "list_all (\<lambda>x. 0 < x) (numbers n1)"
    by blast
  from power_transform_positive [OF num pos] obtain tf where
    tf: "power_transform (boxcox_lambda lib_ex) n1 = Inr tf" by blast
  from c have "columns n1 = nutrient_names"
    by (simp add: nutr54_def)
  with n1 tf show ?thesis by (simp add: normalize_def)
qed

lemma pca_df_54: "\<exists>p. make_pca_df (pca_fit_transform lib_ex m) desc54 = Inr p"
  by (simp add: make_pca_df_def data_frame_def join_def drop_cols_def ncols_def index_def
      lib_ex_def desc54_def NDB_No_def FoodGroup_def Shrt_Desc_def Let_def)

lemma clustered_54:
  "\<exists>cl. make_clustered (pca_fit_transform lib_ex m)
          (kmeans_labels lib_ex (map (take 5) (pca_fit_transform lib_ex m))) desc54 = Inr cl"
  by (simp add: make_clustered_def data_frame_def set_column_def join_def ncols_def index_def
      lib_ex_def desc54_def NDB_No_def FoodGroup_def Shrt_Desc_def Let_def)

lemma loadings_54:
  "columns n1 = nutrient_names \<Longrightarrow> i < 5 \<Longrightarrow>
   \<exists>s. loading_series (pca_components lib_ex m) i n1 = Inr s"
  by (simp add: loading_series_def get_row_def series_def lib_ex_def nutrient_names_def)

lemma notebook_table54: "\<exists>out. notebook lib_ex (dropna table54) = Inr out \<and> desc_df out = desc54"
proof -
  from normalize_nutr54 obtain n1 tf m where
    nz: "normalize lib_ex nutr54 = Inr (n1, tf, m)" and c: "columns n1 = nutrient_names"
    by blast
  from pca_df_54 obtain p where
    p: "make_pca_df (pca_fit_transform lib_ex m) desc54 = Inr p" by blast
  from loadings_54 [OF c, of 0] obtain s1 where
    s1: "loading_series (pca_components lib_ex m) 0 n1 = Inr s1" by auto
  from loadings_54 [OF c, of "Suc 0"] obtain s2 where
    s2: "loading_series (pca_components lib_ex m) (Suc 0) n1 = Inr s2" by auto
  from clustered_54 obtain cl where
    cl: "make_clustered (pca_fit_transform lib_ex m)
          (kmeans_labels lib_ex (map (take 5) (pca_fit_transform lib_ex m))) desc54 = Inr cl"
    by blast
  have "notebook lib_ex (dropna table54)
      = Inr \<lparr>desc_df = desc54, nutr_df = n1, nutr_df_TF = m, pca_df = p,
             c1 = s1, c2 = s2, clustered = cl\<rparr>"
    by (simp add: notebook_def split_table54 nz p s1 s2 cl)
  then show ?thesis by simp
qed

theorem identifier_sets_equal_witness:
  "csv_table table54 \<and>
   (\<exists>out. notebook lib_ex (dropna table54) = Inr out \<and>
      index (desc_df out) = [Int64 1001, Int64 1003] \<and>
      index (nutr_df out) = [Int64 1001, Int64 1003] \<and>
      set (index (pca_df out)) = {Int64 1001, Int64 1003} \<and>
      set (index (clustered out)) = {Int64 1001, Int64 1003})"
proof -
  from notebook_table54 obtain out where
    out: "notebook lib_ex (dropna table54) = Inr out" and d: "desc_df out = desc54" by blast
  have i: "index (desc_df out) = [Int64 1001, Int64 1003]"
    by (simp add: d desc54_def index_def)
  note t = identifier_sets_equal [OF csv_table54 out]
  from t have "index (nutr_df out) = index (desc_df out)"
    and "set (index (pca_df out)) = set (index (desc_df out))"
    and "set (index (clustered out)) = set (index (desc_df out))"
    by blast+
  with i out csv_table54 show ?thesis by auto
qed

end
